theory Spec2Isabelle
  imports Complex_Main "HOL-Library.Word"
begin

section \<open>The A3C worker of algorithms/a3c/train.py\<close>

text \<open>
  Tensors of shape 1x1 and Python floats are modelled as \<^typ>\<open>real\<close>: the development is
  about the arithmetic structure of the loss computation and about the control flow of
  the worker, not about rounding. Python integers are \<^typ>\<open>int\<close>. Exceptions are values.
\<close>

datatype py_error = ZeroDivisionError | IndexError | AttributeError

text \<open>Reading \<open>xs[i]\<close> for a non-negative index: Python raises IndexError out of range.\<close>

definition nth_py :: "'a list \<Rightarrow> nat \<Rightarrow> py_error + 'a" where
  "nth_py xs i = (if i < length xs then Inr (xs ! i) else Inl IndexError)"

subsection \<open>Hyperparameters read from \<open>args\<close>\<close>

record args =
  gamma :: real
  tau :: real
  entropy_coef :: real
  value_loss_coef :: real
  num_steps :: int
  max_episode_length :: int
  checkpoint_freq :: int
  num_processes :: int
  arg_total_length :: int
  arg_episode_number :: int
  verbose_num_steps :: bool

subsection \<open>The backward loss accumulation (train.py, lines 209-223)\<close>

record losses =
  acc_R :: real
  acc_value_loss :: real
  acc_gae :: real
  acc_policy_loss :: real

text \<open>One pass through the body of \<open>for i in reversed(range(len(rewards)))\<close>.\<close>

definition gae_body ::
  "args \<Rightarrow> real list \<Rightarrow> real list \<Rightarrow> real list \<Rightarrow> real list \<Rightarrow> nat \<Rightarrow> losses
    \<Rightarrow> py_error + losses" where
  "gae_body a rewards vals log_probs entropies i s =
     (case nth_py rewards i of Inl e \<Rightarrow> Inl e | Inr r \<Rightarrow>
      let R' = gamma a * acc_R s + r in
      (case nth_py vals i of Inl e \<Rightarrow> Inl e | Inr v \<Rightarrow>
       let advantage = R' - v;
           value_loss' = acc_value_loss s + 0.5 * advantage ^ 2 in
       (case nth_py vals (i + 1) of Inl e \<Rightarrow> Inl e | Inr v_next \<Rightarrow>
        let delta_t = r + gamma a * v_next - v;
            gae' = acc_gae s * gamma a * tau a + delta_t in
        (case nth_py log_probs i of Inl e \<Rightarrow> Inl e | Inr lp \<Rightarrow>
         (case nth_py entropies i of Inl e \<Rightarrow> Inl e | Inr ent \<Rightarrow>
          Inr \<lparr>acc_R = R', acc_value_loss = value_loss', acc_gae = gae',
               acc_policy_loss = acc_policy_loss s - lp * gae' - entropy_coef a * ent\<rparr>)))))"

text \<open>The loop runs \<open>i = n - 1, ..., 0\<close>; the argument counts the indices still to visit.\<close>

fun gae_loop ::
  "args \<Rightarrow> real list \<Rightarrow> real list \<Rightarrow> real list \<Rightarrow> real list \<Rightarrow> nat \<Rightarrow> losses
    \<Rightarrow> py_error + losses" where
  "gae_loop a rewards vals log_probs entropies 0 s = Inr s"
| "gae_loop a rewards vals log_probs entropies (Suc i) s =
     (case gae_body a rewards vals log_probs entropies i s of
        Inl e \<Rightarrow> Inl e
      | Inr s' \<Rightarrow> gae_loop a rewards vals log_probs entropies i s')"

text \<open>
  Lines 209-223: the bootstrap value \<open>R\<close> is appended to \<open>values\<close>, both losses and
  \<open>gae\<close> start at 0, and the loop runs over \<open>reversed(range(len(rewards)))\<close>.
\<close>

definition compute_losses ::
  "args \<Rightarrow> real \<Rightarrow> real list \<Rightarrow> real list \<Rightarrow> real list \<Rightarrow> real list
    \<Rightarrow> py_error + losses" where
  "compute_losses a R vals rewards log_probs entropies =
     gae_loop a rewards (vals @ [R]) log_probs entropies (length rewards)
       \<lparr>acc_R = R, acc_value_loss = 0, acc_gae = 0, acc_policy_loss = 0\<rparr>"

subsection \<open>Reference quantities of Generalized Advantage Estimation\<close>

text \<open>
  The quantities as the specification words them, for a trajectory of length \<open>T\<close> with
  rewards \<open>r\<close>, value estimates \<open>V\<close> (the bootstrap value at index \<open>T\<close>):
  the discounted return from step \<open>i\<close>, the temporal-difference residual, the
  exponentially weighted advantage, and the two accumulated losses.
\<close>

definition spec_return :: "real \<Rightarrow> real \<Rightarrow> real list \<Rightarrow> nat \<Rightarrow> real" where
  "spec_return g boot rewards i =
     (\<Sum>k = i..<length rewards. g ^ (k - i) * rewards ! k) + g ^ (length rewards - i) * boot"

definition spec_delta :: "real \<Rightarrow> real list \<Rightarrow> real list \<Rightarrow> nat \<Rightarrow> real" where
  "spec_delta g rewards vs k = rewards ! k + g * vs ! (k + 1) - vs ! k"

definition spec_gae :: "real \<Rightarrow> real \<Rightarrow> real list \<Rightarrow> real list \<Rightarrow> nat \<Rightarrow> real" where
  "spec_gae g t rewards vs i =
     (\<Sum>k = i..<length rewards. (g * t) ^ (k - i) * spec_delta g rewards vs k)"

definition spec_value_loss :: "real \<Rightarrow> real \<Rightarrow> real list \<Rightarrow> real list \<Rightarrow> nat \<Rightarrow> real" where
  "spec_value_loss g boot rewards vs i =
     (\<Sum>j = i..<length rewards. 0.5 * (spec_return g boot rewards j - vs ! j) ^ 2)"

definition spec_policy_loss ::
  "real \<Rightarrow> real \<Rightarrow> real \<Rightarrow> real list \<Rightarrow> real list \<Rightarrow> real list \<Rightarrow> real list \<Rightarrow> nat \<Rightarrow> real" where
  "spec_policy_loss g t ec rewards vs log_probs entropies i =
     (\<Sum>j = i..<length rewards.
        - (log_probs ! j) * spec_gae g t rewards vs j - ec * entropies ! j)"

definition spec_losses ::
  "args \<Rightarrow> real \<Rightarrow> real list \<Rightarrow> real list \<Rightarrow> real list \<Rightarrow> real list \<Rightarrow> nat \<Rightarrow> losses" where
  "spec_losses a boot vs rewards log_probs entropies i =
     \<lparr>acc_R = spec_return (gamma a) boot rewards i,
      acc_value_loss = spec_value_loss (gamma a) boot rewards vs i,
      acc_gae = spec_gae (gamma a) (tau a) rewards vs i,
      acc_policy_loss =
        spec_policy_loss (gamma a) (tau a) (entropy_coef a) rewards vs log_probs entropies i\<rparr>"

subsection \<open>The world outside the worker\<close>

text \<open>
  The running averages start at \<open>-np.inf\<close>; \<open>ext_gt x y\<close> is Python's \<open>x > y\<close> on such
  values.
\<close>

datatype ext = MinusInf | Finite real

fun ext_gt :: "ext \<Rightarrow> ext \<Rightarrow> bool" where
  "ext_gt (Finite x) (Finite y) = (x > y)"
| "ext_gt (Finite x) MinusInf = True"
| "ext_gt MinusInf y = False"

type_synonym tensor = "real list"

text \<open>The dictionary built at lines 118-124.\<close>

record checkpoint =
  ck_total_length :: int
  ck_episode_number :: int
  ck_counter :: int
  ck_state_dict :: "tensor list"
  ck_optimizer :: "tensor list"

text \<open>
  Calls that leave the worker, in the order they are made. \<open>TorchSave obj n\<close> writes
  \<open>obj\<close> to the file named after total length \<open>n\<close>; \<open>CopyBest n\<close> copies that file to
  \<open>model_best.pth.tar\<close>.
\<close>

datatype call =
    LoadStateDict
  | TorchSave checkpoint int
  | CopyBest int
  | Print
  | EnvStep nat
  | EnvReset
  | LockAcquire
  | LockRelease
  | AddScalar string real int
  | AddImage int
  | ZeroGrad
  | Backward real
  | ClipGradNorm
  | EnsureSharedGrads
  | OptimizerStep

text \<open>
  Everything the worker does not own is a parameter: the network (a function of the
  world, which holds the local and shared parameters), the sampler, the environment, and
  the effect of each call on the world. The network receives the step index \<open>tx\<close> only
  when the task has language instructions.
\<close>

record ('w, 'o, 'h, 'l) sys =
  task_has_language_instructions :: bool
  net :: "'w \<Rightarrow> 'o \<Rightarrow> int option \<Rightarrow> 'h \<Rightarrow> real \<times> 'l \<times> 'h"
  zeros_hidden :: 'h
  entropy_of :: "'l \<Rightarrow> real"
  multinomial :: "'l \<Rightarrow> 'w \<Rightarrow> nat \<times> 'w"
  log_prob_of :: "'l \<Rightarrow> nat \<Rightarrow> real"
  env_step :: "nat \<Rightarrow> 'w \<Rightarrow> ('o \<times> real \<times> bool) \<times> 'w"
  env_reset :: "'w \<Rightarrow> 'o \<times> 'w"
  perform :: "call \<Rightarrow> 'w \<Rightarrow> 'w"
  state_dict :: "'w \<Rightarrow> tensor list"
  optimizer_state_dict :: "'w \<Rightarrow> tensor list"
  model_grads :: "'w \<Rightarrow> tensor option list"
  shared_grads :: "'w \<Rightarrow> tensor option list"
  set_shared_grads :: "tensor option list \<Rightarrow> 'w \<Rightarrow> 'w"

subsection \<open>The local variables of \<open>train\<close>\<close>

text \<open>
  The shared counter is created by \<open>mp.Value('i', 0)\<close> (main.py, line 82): a C \<open>int\<close>,
  32 bits, read as a signed value; storing into it does not check for overflow.
\<close>

record ('w, 'o, 'h) worker =
  world :: 'w
  trace :: "call list"
  counter :: "32 word"
  cur_state :: 'o
  is_done :: bool
  hid :: 'h
  tx :: int
  cur_value :: real
  cur_log_prob :: real
  cur_reward :: real
  avg_episode_returns :: "real list"
  avg_episode_return :: ext
  best_avg_episode_return :: ext
  episode_total_rewards_list :: "real list"
  all_rewards_in_episode :: "real list"
  p_losses :: "real list"
  v_losses :: "real list"
  total_length :: int
  episode_number :: int
  episode_length :: int
  num_backprops :: int
  vals :: "real list"
  log_probs :: "real list"
  rewards :: "real list"
  entropies :: "real list"

definition emit ::
  "('w, 'o, 'h, 'l) sys \<Rightarrow> call \<Rightarrow> ('w, 'o, 'h) worker \<Rightarrow> ('w, 'o, 'h) worker" where
  "emit sys c s = s\<lparr>world := perform sys c (world s), trace := trace s @ [c]\<rparr>"

definition avg_over_num_episodes :: nat where
  "avg_over_num_episodes = 10"

text \<open>Python's \<open>xs[-n:]\<close> for positive \<open>n\<close>: the last \<open>n\<close> elements, or all of a shorter list.\<close>

definition last_n :: "nat \<Rightarrow> 'a list \<Rightarrow> 'a list" where
  "last_n n xs = drop (length xs - n) xs"

subsection \<open>Lines 34-46: \<open>save_checkpoint\<close> and \<open>ensure_shared_grads\<close>\<close>

definition save_checkpoint ::
  "('w, 'o, 'h, 'l) sys \<Rightarrow> checkpoint \<Rightarrow> int \<Rightarrow> bool \<Rightarrow> ('w, 'o, 'h) worker
    \<Rightarrow> ('w, 'o, 'h) worker" where
  "save_checkpoint sys obj fn is_best s =
     (let s1 = emit sys Print (emit sys (TorchSave obj fn) s)
      in if is_best then emit sys (CopyBest fn) s1 else s1)"

text \<open>
  The two arguments are the \<open>grad\<close> attributes of the local and of the shared parameters,
  \<open>None\<close> when unset; the result is the shared ones afterwards. The loop runs over
  \<open>zip\<close> of the two and returns at the first shared gradient that is set.
\<close>

fun ensure_shared_grads :: "'g option list \<Rightarrow> 'g option list \<Rightarrow> 'g option list" where
  "ensure_shared_grads (p # ps) (None # ss) = p # ensure_shared_grads ps ss"
| "ensure_shared_grads (p # ps) (Some g # ss) = Some g # ss"
| "ensure_shared_grads [] ss = ss"
| "ensure_shared_grads ps [] = []"

subsection \<open>Lines 113-192: one pass through the rollout loop\<close>

text \<open>
  The test of line 115. \<open>and\<close> evaluates from the left, so the division is reached only
  for rank 0 with a positive total length; \<open>//\<close> and \<open>%\<close> round to the floor, as
  \<open>div\<close> and \<open>mod\<close> on \<^typ>\<open>int\<close> do, and raise on a zero divisor.
\<close>

definition checkpoint_due :: "args \<Rightarrow> int \<Rightarrow> int \<Rightarrow> py_error + bool" where
  "checkpoint_due a rank len =
     (if rank = 0 \<and> len > 0 then
        (if num_processes a = 0 then Inl ZeroDivisionError
         else let d = checkpoint_freq a div num_processes a
              in if d = 0 then Inl ZeroDivisionError else Inr (len mod d = 0))
      else Inr False)"

definition checkpoint_phase ::
  "('w, 'o, 'h, 'l) sys \<Rightarrow> args \<Rightarrow> int \<Rightarrow> ('w, 'o, 'h) worker
    \<Rightarrow> py_error + ('w, 'o, 'h) worker" where
  "checkpoint_phase sys a rank s =
     (case checkpoint_due a rank (total_length s) of
        Inl e \<Rightarrow> Inl e
      | Inr False \<Rightarrow> Inr s
      | Inr True \<Rightarrow>
          let checkpoint_dict =
                \<lparr>ck_total_length = total_length s,
                 ck_episode_number = episode_number s,
                 ck_counter = sint (counter s),
                 ck_state_dict = state_dict sys (world s),
                 ck_optimizer = optimizer_state_dict sys (world s)\<rparr>;
              best_so_far = ext_gt (avg_episode_return s) (best_avg_episode_return s)
          in Inr (save_checkpoint sys checkpoint_dict (total_length s) best_so_far s))"

definition forward ::
  "('w, 'o, 'h, 'l) sys \<Rightarrow> ('w, 'o, 'h) worker \<Rightarrow> real \<times> 'l \<times> 'h" where
  "forward sys s =
     net sys (world s) (cur_state s)
       (if task_has_language_instructions sys then Some (tx s) else None) (hid s)"

text \<open>Lines 130-151: evaluate the network, sample an action, step the environment.\<close>

definition interact ::
  "('w, 'o, 'h, 'l) sys \<Rightarrow> args \<Rightarrow> ('w, 'o, 'h) worker \<Rightarrow> ('w, 'o, 'h) worker" where
  "interact sys a s =
     (let s0 = (if task_has_language_instructions sys then s\<lparr>tx := episode_length s\<rparr> else s);
          (v, logit, h) = forward sys s0;
          entropy = entropy_of sys logit;
          (action, w1) = multinomial sys logit (world s0);
          log_prob = log_prob_of sys logit action;
          ((st, reward, d), w2) = env_step sys action w1;
          el = episode_length s0 + 1
      in s0\<lparr>world := w2, trace := trace s0 @ [EnvStep action],
             entropies := entropies s0 @ [entropy], hid := h,
             cur_value := v, cur_log_prob := log_prob, cur_reward := reward,
             cur_state := st, episode_length := el, total_length := total_length s0 + 1,
             is_done := (d \<or> el \<ge> max_episode_length a)\<rparr>)"

text \<open>Lines 153-154: \<open>with lock: counter.value += 1\<close>.\<close>

definition count_step ::
  "('w, 'o, 'h, 'l) sys \<Rightarrow> ('w, 'o, 'h) worker \<Rightarrow> ('w, 'o, 'h) worker" where
  "count_step sys s =
     emit sys LockRelease ((emit sys LockAcquire s)\<lparr>counter := counter s + 1\<rparr>)"

text \<open>Lines 157-184: the bookkeeping at the end of an episode.\<close>

definition episode_over ::
  "('w, 'o, 'h, 'l) sys \<Rightarrow> int \<Rightarrow> ('w, 'o, 'h) worker \<Rightarrow> ('w, 'o, 'h) worker" where
  "episode_over sys rank s =
     (let total_reward_for_episode = sum_list (all_rewards_in_episode s);
          totals = episode_total_rewards_list s @ [total_reward_for_episode];
          s1 = s\<lparr>episode_total_rewards_list := totals\<rparr>;
          s2 = (if length totals > avg_over_num_episodes then
                  let avg = sum_list (last_n avg_over_num_episodes totals)
                              / real (length (last_n avg_over_num_episodes totals))
                  in emit sys (AddScalar ''avg_episode_returns'' avg (episode_number s1))
                       (s1\<lparr>avg_episode_return := Finite avg,
                           avg_episode_returns := avg_episode_returns s1 @ [avg]\<rparr>)
                else s1);
          s3 = s2\<lparr>all_rewards_in_episode := []\<rparr>;
          s4 = emit sys Print (emit sys Print (emit sys Print s3));
          s5 = (if rank = 0 then
                  emit sys (AddImage (episode_number s4))
                    (emit sys (AddScalar ''episode_total_rewards'' total_reward_for_episode
                                 (episode_number s4))
                       (emit sys (AddScalar ''episode_lengths''
                                    (real_of_int (episode_length s4)) (episode_number s4)) s4))
                else s4);
          (st, w) = env_reset sys (world s5)
      in s5\<lparr>world := w, trace := trace s5 @ [EnvReset], cur_state := st,
             episode_number := episode_number s5 + 1, episode_length := 0\<rparr>)"

text \<open>Lines 186-189.\<close>

definition record_step :: "('w, 'o, 'h) worker \<Rightarrow> ('w, 'o, 'h) worker" where
  "record_step s =
     s\<lparr>vals := vals s @ [cur_value s], log_probs := log_probs s @ [cur_log_prob s],
       rewards := rewards s @ [cur_reward s],
       all_rewards_in_episode := all_rewards_in_episode s @ [cur_reward s]\<rparr>"

text \<open>Lines 130-189: the pass after the checkpoint test.\<close>

definition pass_body ::
  "('w, 'o, 'h, 'l) sys \<Rightarrow> args \<Rightarrow> int \<Rightarrow> ('w, 'o, 'h) worker \<Rightarrow> ('w, 'o, 'h) worker" where
  "pass_body sys a rank s1 =
     (let s2 = count_step sys (interact sys a s1);
          s3 = (if is_done s2 then episode_over sys rank s2 else s2)
      in record_step s3)"

definition rollout_step ::
  "('w, 'o, 'h, 'l) sys \<Rightarrow> args \<Rightarrow> int \<Rightarrow> ('w, 'o, 'h) worker
    \<Rightarrow> py_error + ('w, 'o, 'h) worker" where
  "rollout_step sys a rank s =
     (case checkpoint_phase sys a rank s of
        Inl e \<Rightarrow> Inl e
      | Inr s1 \<Rightarrow> Inr (pass_body sys a rank s1))"

text \<open>
  \<open>for step in range(args.num_steps)\<close> with the \<open>break\<close> of line 192; the numeric
  argument is the number of passes still allowed.
\<close>

fun rollout_loop ::
  "('w, 'o, 'h, 'l) sys \<Rightarrow> args \<Rightarrow> int \<Rightarrow> nat \<Rightarrow> ('w, 'o, 'h) worker
    \<Rightarrow> py_error + ('w, 'o, 'h) worker" where
  "rollout_loop sys a rank 0 s = Inr s"
| "rollout_loop sys a rank (Suc n) s =
     (case rollout_step sys a rank s of
        Inl e \<Rightarrow> Inl e
      | Inr s' \<Rightarrow> if is_done s' then Inr s' else rollout_loop sys a rank n s')"

text \<open>Lines 98-113: synchronise, reset the recurrent state, empty the buffers, roll out.\<close>

definition rollout_phase ::
  "('w, 'o, 'h, 'l) sys \<Rightarrow> args \<Rightarrow> int \<Rightarrow> ('w, 'o, 'h) worker
    \<Rightarrow> py_error + ('w, 'o, 'h) worker" where
  "rollout_phase sys a rank s =
     (let s0 = emit sys LoadStateDict s;
          s1 = s0\<lparr>hid := (if is_done s0 then zeros_hidden sys else hid s0),
                  vals := [], log_probs := [], rewards := [], entropies := []\<rparr>
      in rollout_loop sys a rank (nat (num_steps a)) s1)"

subsection \<open>Lines 194-259: the update after the rollout\<close>

text \<open>Lines 196-206: the value that seeds the backward accumulation.\<close>

definition terminal_value :: "('w, 'o, 'h, 'l) sys \<Rightarrow> ('w, 'o, 'h) worker \<Rightarrow> real" where
  "terminal_value sys s = (if \<not> is_done s then fst (forward sys s) else 0)"

text \<open>Line 230: \<open>ensure_shared_grads(model, shared_model)\<close> on the gradients held in the world.\<close>

definition push_grads ::
  "('w, 'o, 'h, 'l) sys \<Rightarrow> ('w, 'o, 'h) worker \<Rightarrow> ('w, 'o, 'h) worker" where
  "push_grads sys s =
     s\<lparr>world := set_shared_grads sys
                  (ensure_shared_grads (model_grads sys (world s)) (shared_grads sys (world s)))
                  (world s),
       trace := trace s @ [EnsureSharedGrads]\<rparr>"

text \<open>
  Lines 225-259, for the losses \<open>l\<close>. With no reward collected both losses are still
  the Python number 0, and \<open>.backward()\<close> on their sum raises AttributeError: that
  case ends the worker in \<open>update_phase\<close>.
\<close>

definition apply_update ::
  "('w, 'o, 'h, 'l) sys \<Rightarrow> args \<Rightarrow> int \<Rightarrow> losses \<Rightarrow> ('w, 'o, 'h) worker
    \<Rightarrow> ('w, 'o, 'h) worker" where
  "apply_update sys a rank l s =
     (let policy_loss = acc_policy_loss l;
          value_loss = acc_value_loss l;
          s3 = emit sys ZeroGrad s;
          s4 = emit sys ClipGradNorm
                 (emit sys (Backward (policy_loss + value_loss_coef a * value_loss)) s3);
          s5 = emit sys OptimizerStep (push_grads sys s4);
          nb = num_backprops s5 + 1;
          s6 = emit sys (AddScalar ''value_loss'' value_loss nb)
                 (emit sys (AddScalar ''policy_loss'' policy_loss nb)
                    (s5\<lparr>num_backprops := nb\<rparr>));
          s7 = s6\<lparr>p_losses := p_losses s6 @ [policy_loss],
                  v_losses := v_losses s6 @ [value_loss]\<rparr>;
          s8 = (if length (p_losses s7) > 1000
                then (emit sys Print s7)\<lparr>p_losses := [], v_losses := []\<rparr>
                else s7);
          s9 = (if rank = 0 \<and> verbose_num_steps a then
                  let s' = emit sys Print s8
                  in if nb mod 100 = 0 then emit sys Print s' else s'
                else s8)
      in s9)"

definition update_phase ::
  "('w, 'o, 'h, 'l) sys \<Rightarrow> args \<Rightarrow> int \<Rightarrow> ('w, 'o, 'h) worker
    \<Rightarrow> py_error + ('w, 'o, 'h) worker" where
  "update_phase sys a rank s =
     (let R = terminal_value sys s;
          s1 = (if \<not> is_done s then s\<lparr>cur_value := R\<rparr> else s)
      in case compute_losses a R (vals s1) (rewards s1) (log_probs s1) (entropies s1) of
           Inl e \<Rightarrow> Inl e
         | Inr l \<Rightarrow>
             if rewards s1 = [] then Inl AttributeError
             else Inr (apply_update sys a rank l (s1\<lparr>vals := vals s1 @ [R]\<rparr>)))"

text \<open>One pass through the body of \<open>while True\<close>.\<close>

definition train_iter ::
  "('w, 'o, 'h, 'l) sys \<Rightarrow> args \<Rightarrow> int \<Rightarrow> ('w, 'o, 'h) worker
    \<Rightarrow> py_error + ('w, 'o, 'h) worker" where
  "train_iter sys a rank s =
     (case rollout_phase sys a rank s of
        Inl e \<Rightarrow> Inl e
      | Inr s' \<Rightarrow> update_phase sys a rank s')"

text \<open>
  The loop itself never returns; \<open>train_n\<close> is the state after the given number of
  passes, or the exception that ended the worker.
\<close>

fun train_n ::
  "('w, 'o, 'h, 'l) sys \<Rightarrow> args \<Rightarrow> int \<Rightarrow> nat \<Rightarrow> ('w, 'o, 'h) worker
    \<Rightarrow> py_error + ('w, 'o, 'h) worker" where
  "train_n sys a rank 0 s = Inr s"
| "train_n sys a rank (Suc n) s =
     (case train_iter sys a rank s of
        Inl e \<Rightarrow> Inl e
      | Inr s' \<Rightarrow> train_n sys a rank n s')"

text \<open>
  Lines 79-96: the state in which the loop is entered, for a world \<open>w\<close> and a counter
  value \<open>c\<close>. Variables not yet assigned hold a default.
\<close>

definition init_worker ::
  "('w, 'o, 'h, 'l) sys \<Rightarrow> args \<Rightarrow> 'w \<Rightarrow> 32 word \<Rightarrow> ('w, 'o, 'h) worker" where
  "init_worker sys a w c =
     (let (st, w') = env_reset sys w
      in \<lparr>world = w', trace = [EnvReset], counter = c, cur_state = st, is_done = True,
          hid = zeros_hidden sys, tx = 0, cur_value = 0, cur_log_prob = 0, cur_reward = 0,
          avg_episode_returns = [], avg_episode_return = MinusInf,
          best_avg_episode_return = MinusInf, episode_total_rewards_list = [],
          all_rewards_in_episode = [], p_losses = [], v_losses = [],
          total_length = arg_total_length a, episode_number = arg_episode_number a,
          episode_length = 0, num_backprops = 0,
          vals = [], log_probs = [], rewards = [], entropies = []\<rparr>)"

subsection \<open>A scripted world for concrete runs\<close>

text \<open>
  The world is the number of environment steps taken so far; the observation is that
  number, the critic's estimate of an observation is the observation itself, step \<open>k\<close>
  pays \<open>reward k\<close> and ends the episode when \<open>ends k\<close>. One parameter, whose shared
  gradient is unset.
\<close>

definition scripted :: "(nat \<Rightarrow> real) \<Rightarrow> (nat \<Rightarrow> bool) \<Rightarrow> (nat, nat, unit, unit) sys" where
  "scripted reward ends =
     \<lparr>task_has_language_instructions = False,
      net = (\<lambda>w ob t h. (real ob, (), ())),
      zeros_hidden = (),
      entropy_of = (\<lambda>l. 1),
      multinomial = (\<lambda>l w. (0, w)),
      log_prob_of = (\<lambda>l act. - 1),
      env_step = (\<lambda>act w. ((Suc w, reward w, ends w), Suc w)),
      env_reset = (\<lambda>w. (w, w)),
      perform = (\<lambda>c w. w),
      state_dict = (\<lambda>w. []),
      optimizer_state_dict = (\<lambda>w. []),
      model_grads = (\<lambda>w. [Some [1]]),
      shared_grads = (\<lambda>w. [None]),
      set_shared_grads = (\<lambda>g w. w)\<rparr>"

definition demo_args :: args where
  "demo_args =
     \<lparr>gamma = 1 / 2, tau = 1, entropy_coef = 1 / 10, value_loss_coef = 1 / 2, num_steps = 2,
      max_episode_length = 10, checkpoint_freq = 2, num_processes = 1,
      arg_total_length = 0, arg_episode_number = 0, verbose_num_steps = False\<rparr>"


text \<open>
  Views of one pass, for a state \<open>s\<close> in which line 130 is reached: the state with
  \<open>tx\<close> set, the action drawn, and what \<open>env.step\<close> returns.
\<close>

definition with_tx :: "('w, 'o, 'h, 'l) sys \<Rightarrow> ('w, 'o, 'h) worker \<Rightarrow> ('w, 'o, 'h) worker" where
  "with_tx sys s = (if task_has_language_instructions sys then s\<lparr>tx := episode_length s\<rparr> else s)"

definition sample_action :: "('w, 'o, 'h, 'l) sys \<Rightarrow> ('w, 'o, 'h) worker \<Rightarrow> nat \<times> 'w" where
  "sample_action sys s =
     multinomial sys (fst (snd (forward sys (with_tx sys s)))) (world (with_tx sys s))"

definition env_response ::
  "('w, 'o, 'h, 'l) sys \<Rightarrow> ('w, 'o, 'h) worker \<Rightarrow> 'o \<times> real \<times> bool" where
  "env_response sys s =
     fst (env_step sys (fst (sample_action sys s)) (snd (sample_action sys s)))"

text \<open>The part of a trace added between two states.\<close>

definition calls_since :: "('w, 'o, 'h) worker \<Rightarrow> ('w, 'o, 'h) worker \<Rightarrow> call list" where
  "calls_since s s' = drop (length (trace s)) (trace s')"

subsection \<open>Vocabulary for traces\<close>

fun is_env_step :: "call \<Rightarrow> bool" where
  "is_env_step (EnvStep act) = True"
| "is_env_step c = False"

fun is_lock_call :: "call \<Rightarrow> bool" where
  "is_lock_call LockAcquire = True"
| "is_lock_call LockRelease = True"
| "is_lock_call c = False"

fun is_save :: "call \<Rightarrow> bool" where
  "is_save (TorchSave obj n) = True"
| "is_save c = False"

fun is_grad_call :: "call \<Rightarrow> bool" where
  "is_grad_call ZeroGrad = True"
| "is_grad_call (Backward l) = True"
| "is_grad_call ClipGradNorm = True"
| "is_grad_call EnsureSharedGrads = True"
| "is_grad_call OptimizerStep = True"
| "is_grad_call c = False"

text \<open>Printing, logging, copying the best checkpoint, resetting and synchronising.\<close>

definition quiet :: "call \<Rightarrow> bool" where
  "quiet c = (\<not> is_env_step c \<and> \<not> is_lock_call c \<and> \<not> is_save c \<and> \<not> is_grad_call c)"

text \<open>
  \<open>counted_from 0 cs\<close>: in \<open>cs\<close> every \<open>EnvStep\<close> is followed at once by
  \<open>LockAcquire, LockRelease\<close>, and the lock is taken nowhere else. The number is the
  position inside such a triple.
\<close>

primrec counted_from :: "nat \<Rightarrow> call list \<Rightarrow> bool" where
  "counted_from st [] = (st = 0)"
| "counted_from st (c # cs) =
     (if st = 0 then
        (if is_env_step c then counted_from 1 cs else \<not> is_lock_call c \<and> counted_from 0 cs)
      else if st = 1 then c = LockAcquire \<and> counted_from 2 cs
      else c = LockRelease \<and> counted_from 0 cs)"

text \<open>
  \<open>pass_calls rank k d\<close>: the calls \<open>d\<close> of \<open>k\<close> passes through the rollout loop. Each
  interaction is counted under the lock, nothing touches a gradient, there are \<open>k\<close>
  interactions, and only rank 0 saves.
\<close>

definition pass_calls :: "int \<Rightarrow> nat \<Rightarrow> call list \<Rightarrow> bool" where
  "pass_calls rank k d =
     (counted_from 0 d \<and> filter is_grad_call d = [] \<and> length (filter is_env_step d) = k
      \<and> (rank = 0 \<or> filter is_save d = []))"

text \<open>
  The effect of a call on the world when replayed: \<open>EnsureSharedGrads\<close> writes what
  \<open>ensure_shared_grads\<close> computes from the gradients the world holds then.
\<close>

definition effect :: "('w, 'o, 'h, 'l) sys \<Rightarrow> call \<Rightarrow> 'w \<Rightarrow> 'w" where
  "effect sys c w =
     (if c = EnsureSharedGrads
      then set_shared_grads sys (ensure_shared_grads (model_grads sys w) (shared_grads sys w)) w
      else perform sys c w)"

definition replay :: "('w, 'o, 'h, 'l) sys \<Rightarrow> 'w \<Rightarrow> call list \<Rightarrow> 'w" where
  "replay sys w cs = foldl (\<lambda>w c. effect sys c w) w cs"

text \<open>A run: step \<open>k\<close> pays \<open>k\<close>, every third step ends an episode.\<close>

definition demo_sys :: "(nat, nat, unit, unit) sys" where
  "demo_sys = scripted (\<lambda>k. real k) (\<lambda>k. k mod 3 = 2)"

definition demo_start :: "(nat, nat, unit) worker" where
  "demo_start = init_worker demo_sys demo_args 0 0"

definition demo_rolled :: "(nat, nat, unit) worker" where
  "demo_rolled =
     \<lparr>world = 2,
      trace = [EnvReset, LoadStateDict, EnvStep 0, LockAcquire, LockRelease,
               EnvStep 0, LockAcquire, LockRelease],
      counter = 2, cur_state = 2, is_done = False, hid = (), tx = 0,
      cur_value = 1, cur_log_prob = - 1, cur_reward = 1,
      avg_episode_returns = [], avg_episode_return = MinusInf,
      best_avg_episode_return = MinusInf, episode_total_rewards_list = [],
      all_rewards_in_episode = [0, 1], p_losses = [], v_losses = [],
      total_length = 2, episode_number = 0, episode_length = 2,
      num_backprops = 0, vals = [0, 1], log_probs = [- 1, - 1],
      rewards = [0, 1], entropies = [1, 1]\<rparr>"

definition demo_trained :: "(nat, nat, unit) worker" where
  "demo_trained =
     \<lparr>world = 2,
      trace = [EnvReset, LoadStateDict, EnvStep 0, LockAcquire, LockRelease,
               EnvStep 0, LockAcquire, LockRelease, ZeroGrad,
               Backward (23 / 10), ClipGradNorm, EnsureSharedGrads,
               OptimizerStep, AddScalar ''policy_loss'' (9 / 5) 1,
               AddScalar ''value_loss'' 1 1],
      counter = 2, cur_state = 2, is_done = False, hid = (), tx = 0,
      cur_value = 2, cur_log_prob = - 1, cur_reward = 1,
      avg_episode_returns = [], avg_episode_return = MinusInf,
      best_avg_episode_return = MinusInf, episode_total_rewards_list = [],
      all_rewards_in_episode = [0, 1], p_losses = [9 / 5], v_losses = [1],
      total_length = 2, episode_number = 0, episode_length = 2,
      num_backprops = 1, vals = [0, 1, 2], log_probs = [- 1, - 1],
      rewards = [0, 1], entropies = [1, 1]\<rparr>"

definition demo_rolled_again :: "(nat, nat, unit) worker" where
  "demo_rolled_again =
     \<lparr>world = 3,
      trace = [EnvReset, LoadStateDict, EnvStep 0, LockAcquire, LockRelease,
               EnvStep 0, LockAcquire, LockRelease, ZeroGrad,
               Backward (23 / 10), ClipGradNorm, EnsureSharedGrads,
               OptimizerStep, AddScalar ''policy_loss'' (9 / 5) 1,
               AddScalar ''value_loss'' 1 1, LoadStateDict,
               TorchSave
                 \<lparr>ck_total_length = 2, ck_episode_number = 0, ck_counter = 2,
                  ck_state_dict = [], ck_optimizer = []\<rparr> 2,
               Print, EnvStep 0, LockAcquire, LockRelease, Print, Print, Print,
               AddScalar ''episode_lengths'' 3 0,
               AddScalar ''episode_total_rewards'' 1 0, AddImage 0, EnvReset],
      counter = 3, cur_state = 3, is_done = True, hid = (), tx = 0,
      cur_value = 2, cur_log_prob = - 1, cur_reward = 2,
      avg_episode_returns = [], avg_episode_return = MinusInf,
      best_avg_episode_return = MinusInf,
      episode_total_rewards_list = [1], all_rewards_in_episode = [2],
      p_losses = [9 / 5], v_losses = [1], total_length = 3,
      episode_number = 1, episode_length = 0, num_backprops = 1,
      vals = [2], log_probs = [- 1], rewards = [2], entropies = [1]\<rparr>"

fun is_copy :: "call \<Rightarrow> bool" where
  "is_copy (CopyBest n) = True"
| "is_copy c = False"


text \<open>Settings with a negative checkpoint frequency, and with more processes than the
  checkpoint frequency.\<close>

definition negative_freq_args :: args where
  "negative_freq_args = demo_args\<lparr>checkpoint_freq := - 1\<rparr>"

definition many_procs_args :: args where
  "many_procs_args = demo_args\<lparr>num_processes := 4\<rparr>"

text \<open>
  A run in which every step ends an episode, only the first step pays (10), and a
  checkpoint is due at every step.
\<close>

definition one_reward_sys :: "(nat, nat, unit, unit) sys" where
  "one_reward_sys = scripted (\<lambda>k. if k = 0 then 10 else 0) (\<lambda>k. True)"

definition every_step_args :: args where
  "every_step_args = demo_args\<lparr>checkpoint_freq := 1\<rparr>"

text \<open>The \<open>add_scalar\<close> call of line 176, which logs the total reward of an episode.\<close>

fun is_total_log :: "call \<Rightarrow> bool" where
  "is_total_log (AddScalar name v n) = (name = ''episode_total_rewards'')"
| "is_total_log c = False"

section \<open>Correctness of the loss accumulation\<close>

lemma pow_sum_step:
  fixes x :: real
  assumes "i < n"
  shows "(\<Sum>k = i..<n. x ^ (k - i) * f k)
         = f i + x * (\<Sum>k = Suc i..<n. x ^ (k - Suc i) * f k)"
proof -
  have "(\<Sum>k = i..<n. x ^ (k - i) * f k)
        = x ^ (i - i) * f i + (\<Sum>k = Suc i..<n. x ^ (k - i) * f k)"
    using assms by (simp add: sum.atLeast_Suc_lessThan)
  also have "(\<Sum>k = Suc i..<n. x ^ (k - i) * f k)
             = (\<Sum>k = Suc i..<n. x * (x ^ (k - Suc i) * f k))"
  proof (rule sum.cong)
    fix k assume "k \<in> {Suc i..<n}"
    then have "k - i = Suc (k - Suc i)" by auto
    then show "x ^ (k - i) * f k = x * (x ^ (k - Suc i) * f k)" by simp
  qed simp
  finally show ?thesis by (simp add: sum_distrib_left)
qed

lemma spec_return_step:
  assumes "i < length rs"
  shows "spec_return g boot rs i = g * spec_return g boot rs (Suc i) + rs ! i"
proof -
  have "length rs - i = Suc (length rs - Suc i)" using assms by simp
  then show ?thesis
    unfolding spec_return_def using pow_sum_step [OF assms, of g "\<lambda>k. rs ! k"]
    by (simp add: algebra_simps)
qed

lemma spec_gae_step:
  assumes "i < length rs"
  shows "spec_gae g t rs vs i =
         spec_gae g t rs vs (Suc i) * g * t + spec_delta g rs vs i"
  unfolding spec_gae_def using pow_sum_step [OF assms, of "g * t" "spec_delta g rs vs"]
  by (simp add: algebra_simps)

text \<open>The loop body carries the reference quantities from index \<open>i + 1\<close> to index \<open>i\<close>.\<close>

lemma gae_body_spec:
  assumes "i < length rs" "length vs = Suc (length rs)"
    "length lps = length rs" "length es = length rs"
  shows "gae_body a rs vs lps es i
           (spec_losses a boot vs rs lps es (Suc i))
         = Inr (spec_losses a boot vs rs lps es i)"
proof -
  have R: "gamma a * spec_return (gamma a) boot rs (Suc i) + rs ! i
           = spec_return (gamma a) boot rs i"
    using spec_return_step [OF assms(1)] by simp
  have G: "spec_gae (gamma a) (tau a) rs vs (Suc i) * gamma a * tau a
             + (rs ! i + gamma a * vs ! Suc i - vs ! i)
           = spec_gae (gamma a) (tau a) rs vs i"
    using spec_gae_step [OF assms(1)] by (simp add: spec_delta_def)
  have V: "spec_value_loss (gamma a) boot rs vs i
           = spec_value_loss (gamma a) boot rs vs (Suc i)
             + 0.5 * (spec_return (gamma a) boot rs i - vs ! i) ^ 2"
    using assms(1) by (simp add: spec_value_loss_def sum.atLeast_Suc_lessThan)
  have P: "spec_policy_loss (gamma a) (tau a) (entropy_coef a) rs vs lps es i
           = spec_policy_loss (gamma a) (tau a) (entropy_coef a) rs vs lps es
               (Suc i)
             - lps ! i * spec_gae (gamma a) (tau a) rs vs i
             - entropy_coef a * es ! i"
    using assms(1) by (simp add: spec_policy_loss_def sum.atLeast_Suc_lessThan)
  show ?thesis
    using assms
    by (simp add: gae_body_def nth_py_def spec_losses_def Let_def R G V P)
qed

lemma gae_loop_spec:
  assumes "length vs = Suc (length rs)"
    "length lps = length rs" "length es = length rs"
  shows "n \<le> length rs \<Longrightarrow>
         gae_loop a rs vs lps es n
           (spec_losses a boot vs rs lps es n)
         = Inr (spec_losses a boot vs rs lps es 0)"
proof (induction n)
  case 0
  show ?case by simp
next
  case (Suc n)
  then have "n < length rs" by simp
  from gae_body_spec [OF this assms] Suc show ?case by simp
qed

lemma spec_losses_end:
  "spec_losses a boot vs rs lps es (length rs)
   = \<lparr>acc_R = boot, acc_value_loss = 0, acc_gae = 0, acc_policy_loss = 0\<rparr>"
  by (simp add: spec_losses_def spec_return_def spec_value_loss_def spec_gae_def
      spec_policy_loss_def)

lemma compute_losses_total:
  assumes "length vl = length rs"
    "length lps = length rs" "length es = length rs"
  shows "compute_losses a R vl rs lps es
         = Inr (spec_losses a R (vl @ [R]) rs lps es 0)"
  unfolding compute_losses_def
  using gae_loop_spec [of "vl @ [R]" rs lps es "length rs" a R] assms
  by (simp add: spec_losses_end)

text \<open>
  Claim C1. For collected rewards \<open>r_0..r_{T-1}\<close>, value estimates \<open>V_0..V_{T-1}\<close> and the
  bootstrap value appended as \<open>V_T\<close>, the loss computation of \<open>train\<close>, which walks
  \<open>i\<close> from \<open>T-1\<close> down to 0 with \<open>R = gamma*R + r_i\<close>, \<open>advantage = R - V_i\<close>,
  \<open>value_loss += 0.5*advantage^2\<close>, \<open>delta_i = r_i + gamma*V_{i+1} - V_i\<close>,
  \<open>gae = gae*gamma*tau + delta_i\<close> and
  \<open>policy_loss += -log_prob_i*gae - entropy_coef*entropy_i\<close> from zero losses and zero
  \<open>gae\<close>, raises nothing and ends with the discounted return of step 0, the sum of the
  halved squared advantages, the exponentially weighted sum of the residuals, and the
  sum of the per-step policy terms.
\<close>

theorem C1_gae_loss_accumulation:
  assumes "length vl = length rs"
    and "length lps = length rs"
    and "length es = length rs"
  shows "compute_losses a R vl rs lps es =
         Inr \<lparr>acc_R =
                (\<Sum>k = 0..<length rs. gamma a ^ k * rs ! k)
                  + gamma a ^ length rs * R,
              acc_value_loss =
                (\<Sum>j = 0..<length rs.
                   0.5 * (spec_return (gamma a) R rs j - (vl @ [R]) ! j) ^ 2),
              acc_gae =
                (\<Sum>k = 0..<length rs.
                   (gamma a * tau a) ^ k
                     * (rs ! k + gamma a * (vl @ [R]) ! (k + 1) - (vl @ [R]) ! k)),
              acc_policy_loss =
                (\<Sum>j = 0..<length rs.
                   - (lps ! j) * spec_gae (gamma a) (tau a) rs (vl @ [R]) j
                     - entropy_coef a * es ! j)\<rparr>"
  using compute_losses_total [OF assms, of a R]
  by (simp add: spec_losses_def spec_return_def spec_value_loss_def spec_gae_def
      spec_policy_loss_def spec_delta_def)

theorem C1_gae_loss_accumulation_witness:
  "compute_losses
     \<lparr>gamma = 1 / 2, tau = 1, entropy_coef = 1 / 10, value_loss_coef = 1 / 2, num_steps = 2,
      max_episode_length = 10, checkpoint_freq = 10, num_processes = 1,
      arg_total_length = 0, arg_episode_number = 0, verbose_num_steps = False\<rparr>
     4 [1, 2] [3, 5] [- 1, - 2] [1, 1]
   = Inr \<lparr>acc_R = 13 / 2, acc_value_loss = 221 / 8, acc_gae = 11 / 2,
          acc_policy_loss = 153 / 10\<rparr>"
  using C1_gae_loss_accumulation
    [of "[1, 2]" "[3, 5]" "[- 1, - 2]" "[1, 1]"
      "\<lparr>gamma = 1 / 2, tau = 1, entropy_coef = 1 / 10, value_loss_coef = 1 / 2, num_steps = 2,
        max_episode_length = 10, checkpoint_freq = 10, num_processes = 1,
        arg_total_length = 0, arg_episode_number = 0, verbose_num_steps = False\<rparr>" 4]
  by (simp add: spec_return_def spec_gae_def spec_delta_def numeral_2_eq_2)

section \<open>Frame lemmas for the pieces of one pass\<close>

lemma emit_keeps [simp]:
  shows "counter (emit sys c s) = counter s"
    and "cur_state (emit sys c s) = cur_state s"
    and "is_done (emit sys c s) = is_done s"
    and "hid (emit sys c s) = hid s"
    and "tx (emit sys c s) = tx s"
    and "cur_value (emit sys c s) = cur_value s"
    and "cur_log_prob (emit sys c s) = cur_log_prob s"
    and "cur_reward (emit sys c s) = cur_reward s"
    and "avg_episode_returns (emit sys c s) = avg_episode_returns s"
    and "avg_episode_return (emit sys c s) = avg_episode_return s"
    and "best_avg_episode_return (emit sys c s) = best_avg_episode_return s"
    and "episode_total_rewards_list (emit sys c s) = episode_total_rewards_list s"
    and "all_rewards_in_episode (emit sys c s) = all_rewards_in_episode s"
    and "p_losses (emit sys c s) = p_losses s"
    and "v_losses (emit sys c s) = v_losses s"
    and "total_length (emit sys c s) = total_length s"
    and "episode_number (emit sys c s) = episode_number s"
    and "episode_length (emit sys c s) = episode_length s"
    and "num_backprops (emit sys c s) = num_backprops s"
    and "vals (emit sys c s) = vals s"
    and "log_probs (emit sys c s) = log_probs s"
    and "rewards (emit sys c s) = rewards s"
    and "entropies (emit sys c s) = entropies s"
  by (simp_all add: emit_def)

lemma emit_trace [simp]: "trace (emit sys c s) = trace s @ [c]"
  by (simp add: emit_def)

lemma emit_world [simp]: "world (emit sys c s) = perform sys c (world s)"
  by (simp add: emit_def)

lemma save_checkpoint_keeps [simp]:
  shows "counter (save_checkpoint sys obj fn b s) = counter s"
    and "cur_state (save_checkpoint sys obj fn b s) = cur_state s"
    and "is_done (save_checkpoint sys obj fn b s) = is_done s"
    and "hid (save_checkpoint sys obj fn b s) = hid s"
    and "tx (save_checkpoint sys obj fn b s) = tx s"
    and "cur_value (save_checkpoint sys obj fn b s) = cur_value s"
    and "cur_log_prob (save_checkpoint sys obj fn b s) = cur_log_prob s"
    and "cur_reward (save_checkpoint sys obj fn b s) = cur_reward s"
    and "avg_episode_returns (save_checkpoint sys obj fn b s) = avg_episode_returns s"
    and "avg_episode_return (save_checkpoint sys obj fn b s) = avg_episode_return s"
    and "best_avg_episode_return (save_checkpoint sys obj fn b s) = best_avg_episode_return s"
    and "episode_total_rewards_list (save_checkpoint sys obj fn b s) = episode_total_rewards_list s"
    and "all_rewards_in_episode (save_checkpoint sys obj fn b s) = all_rewards_in_episode s"
    and "p_losses (save_checkpoint sys obj fn b s) = p_losses s"
    and "v_losses (save_checkpoint sys obj fn b s) = v_losses s"
    and "total_length (save_checkpoint sys obj fn b s) = total_length s"
    and "episode_number (save_checkpoint sys obj fn b s) = episode_number s"
    and "episode_length (save_checkpoint sys obj fn b s) = episode_length s"
    and "num_backprops (save_checkpoint sys obj fn b s) = num_backprops s"
    and "vals (save_checkpoint sys obj fn b s) = vals s"
    and "log_probs (save_checkpoint sys obj fn b s) = log_probs s"
    and "rewards (save_checkpoint sys obj fn b s) = rewards s"
    and "entropies (save_checkpoint sys obj fn b s) = entropies s"
  by (simp_all add: save_checkpoint_def Let_def)

lemma save_checkpoint_trace [simp]:
  "trace (save_checkpoint sys obj fn b s)
   = trace s @ TorchSave obj fn # Print # (if b then [CopyBest fn] else [])"
  by (simp add: save_checkpoint_def Let_def)

lemma interact_keeps [simp]:
  shows "counter (interact sys a s) = counter s"
    and "avg_episode_returns (interact sys a s) = avg_episode_returns s"
    and "avg_episode_return (interact sys a s) = avg_episode_return s"
    and "best_avg_episode_return (interact sys a s) = best_avg_episode_return s"
    and "episode_total_rewards_list (interact sys a s) = episode_total_rewards_list s"
    and "all_rewards_in_episode (interact sys a s) = all_rewards_in_episode s"
    and "p_losses (interact sys a s) = p_losses s"
    and "v_losses (interact sys a s) = v_losses s"
    and "episode_number (interact sys a s) = episode_number s"
    and "num_backprops (interact sys a s) = num_backprops s"
    and "vals (interact sys a s) = vals s"
    and "log_probs (interact sys a s) = log_probs s"
    and "rewards (interact sys a s) = rewards s"
  by (simp_all add: interact_def Let_def case_prod_beta)

lemma interact_trace [simp]:
  "trace (interact sys a s) = trace s @ [EnvStep (fst (sample_action sys s))]"
  by (simp add: interact_def sample_action_def with_tx_def Let_def case_prod_beta)

lemma interact_entropies [simp]:
  "length (entropies (interact sys a s)) = Suc (length (entropies s))"
  by (simp add: interact_def Let_def case_prod_beta)

lemma interact_total_length [simp]:
  "total_length (interact sys a s) = total_length s + 1"
  by (simp add: interact_def Let_def case_prod_beta)

lemma interact_episode_length [simp]:
  "episode_length (interact sys a s) = episode_length s + 1"
  by (simp add: interact_def Let_def case_prod_beta)

lemma interact_cur_state [simp]:
  "cur_state (interact sys a s) = fst (env_response sys s)"
  by (simp add: interact_def env_response_def sample_action_def with_tx_def Let_def
      case_prod_beta)

lemma interact_cur_reward [simp]:
  "cur_reward (interact sys a s) = fst (snd (env_response sys s))"
  by (simp add: interact_def env_response_def sample_action_def with_tx_def Let_def
      case_prod_beta)

lemma interact_is_done [simp]:
  "is_done (interact sys a s)
   = (snd (snd (env_response sys s)) \<or> max_episode_length a \<le> episode_length s + 1)"
  by (simp add: interact_def env_response_def sample_action_def with_tx_def Let_def
      case_prod_beta)

lemma count_step_keeps [simp]:
  shows "cur_state (count_step sys s) = cur_state s"
    and "is_done (count_step sys s) = is_done s"
    and "hid (count_step sys s) = hid s"
    and "tx (count_step sys s) = tx s"
    and "cur_value (count_step sys s) = cur_value s"
    and "cur_log_prob (count_step sys s) = cur_log_prob s"
    and "cur_reward (count_step sys s) = cur_reward s"
    and "avg_episode_returns (count_step sys s) = avg_episode_returns s"
    and "avg_episode_return (count_step sys s) = avg_episode_return s"
    and "best_avg_episode_return (count_step sys s) = best_avg_episode_return s"
    and "episode_total_rewards_list (count_step sys s) = episode_total_rewards_list s"
    and "all_rewards_in_episode (count_step sys s) = all_rewards_in_episode s"
    and "p_losses (count_step sys s) = p_losses s"
    and "v_losses (count_step sys s) = v_losses s"
    and "total_length (count_step sys s) = total_length s"
    and "episode_number (count_step sys s) = episode_number s"
    and "episode_length (count_step sys s) = episode_length s"
    and "num_backprops (count_step sys s) = num_backprops s"
    and "vals (count_step sys s) = vals s"
    and "log_probs (count_step sys s) = log_probs s"
    and "rewards (count_step sys s) = rewards s"
    and "entropies (count_step sys s) = entropies s"
  by (simp_all add: count_step_def)

lemma count_step_counter [simp]: "counter (count_step sys s) = counter s + 1"
  by (simp add: count_step_def)

lemma count_step_trace [simp]:
  "trace (count_step sys s) = trace s @ [LockAcquire, LockRelease]"
  by (simp add: count_step_def)

lemma episode_over_keeps [simp]:
  shows "counter (episode_over sys rank s) = counter s"
    and "is_done (episode_over sys rank s) = is_done s"
    and "hid (episode_over sys rank s) = hid s"
    and "tx (episode_over sys rank s) = tx s"
    and "cur_value (episode_over sys rank s) = cur_value s"
    and "cur_log_prob (episode_over sys rank s) = cur_log_prob s"
    and "cur_reward (episode_over sys rank s) = cur_reward s"
    and "best_avg_episode_return (episode_over sys rank s) = best_avg_episode_return s"
    and "p_losses (episode_over sys rank s) = p_losses s"
    and "v_losses (episode_over sys rank s) = v_losses s"
    and "total_length (episode_over sys rank s) = total_length s"
    and "num_backprops (episode_over sys rank s) = num_backprops s"
    and "vals (episode_over sys rank s) = vals s"
    and "log_probs (episode_over sys rank s) = log_probs s"
    and "rewards (episode_over sys rank s) = rewards s"
    and "entropies (episode_over sys rank s) = entropies s"
  by (simp_all add: episode_over_def Let_def case_prod_beta)

lemma episode_over_totals [simp]:
  "episode_total_rewards_list (episode_over sys rank s)
   = episode_total_rewards_list s @ [sum_list (all_rewards_in_episode s)]"
  by (simp add: episode_over_def Let_def case_prod_beta)

lemma episode_over_accumulator [simp]:
  "all_rewards_in_episode (episode_over sys rank s) = []"
  by (simp add: episode_over_def Let_def case_prod_beta)

lemma episode_over_episode_number [simp]:
  "episode_number (episode_over sys rank s) = episode_number s + 1"
  by (simp add: episode_over_def Let_def case_prod_beta)

lemma episode_over_episode_length [simp]:
  "episode_length (episode_over sys rank s) = 0"
  by (simp add: episode_over_def Let_def case_prod_beta)

lemma record_step_keeps [simp]:
  shows "world (record_step s) = world s"
    and "trace (record_step s) = trace s"
    and "counter (record_step s) = counter s"
    and "cur_state (record_step s) = cur_state s"
    and "is_done (record_step s) = is_done s"
    and "hid (record_step s) = hid s"
    and "tx (record_step s) = tx s"
    and "cur_value (record_step s) = cur_value s"
    and "cur_log_prob (record_step s) = cur_log_prob s"
    and "cur_reward (record_step s) = cur_reward s"
    and "avg_episode_returns (record_step s) = avg_episode_returns s"
    and "avg_episode_return (record_step s) = avg_episode_return s"
    and "best_avg_episode_return (record_step s) = best_avg_episode_return s"
    and "episode_total_rewards_list (record_step s) = episode_total_rewards_list s"
    and "p_losses (record_step s) = p_losses s"
    and "v_losses (record_step s) = v_losses s"
    and "total_length (record_step s) = total_length s"
    and "episode_number (record_step s) = episode_number s"
    and "episode_length (record_step s) = episode_length s"
    and "num_backprops (record_step s) = num_backprops s"
    and "entropies (record_step s) = entropies s"
  by (simp_all add: record_step_def)

lemma record_step_buffers [simp]:
  shows "vals (record_step s) = vals s @ [cur_value s]"
    and "log_probs (record_step s) = log_probs s @ [cur_log_prob s]"
    and "rewards (record_step s) = rewards s @ [cur_reward s]"
    and "all_rewards_in_episode (record_step s) = all_rewards_in_episode s @ [cur_reward s]"
  by (simp_all add: record_step_def)


section \<open>One pass through the rollout loop\<close>

lemma checkpoint_phase_cases:
  assumes "checkpoint_phase sys a rank s = Inr s1"
  obtains (skip) "checkpoint_due a rank (total_length s) = Inr False" and "s1 = s"
  | (save) "checkpoint_due a rank (total_length s) = Inr True"
      and "s1 = save_checkpoint sys
                  \<lparr>ck_total_length = total_length s,
                   ck_episode_number = episode_number s,
                   ck_counter = sint (counter s),
                   ck_state_dict = state_dict sys (world s),
                   ck_optimizer = optimizer_state_dict sys (world s)\<rparr>
                  (total_length s)
                  (ext_gt (avg_episode_return s) (best_avg_episode_return s)) s"
  using assms
  by (auto simp: checkpoint_phase_def Let_def split: sum.splits bool.splits)

lemma checkpoint_due_True:
  "checkpoint_due a rank n = Inr True \<longleftrightarrow>
     rank = 0 \<and> 0 < n \<and> num_processes a \<noteq> 0 \<and> checkpoint_freq a div num_processes a \<noteq> 0
     \<and> n mod (checkpoint_freq a div num_processes a) = 0"
  by (auto simp: checkpoint_due_def Let_def)

lemma checkpoint_due_error:
  "checkpoint_due a rank n = Inl e \<longleftrightarrow>
     e = ZeroDivisionError \<and> rank = 0 \<and> 0 < n
     \<and> (num_processes a = 0 \<or> checkpoint_freq a div num_processes a = 0)"
  by (auto simp: checkpoint_due_def Let_def)

lemma checkpoint_phase_keeps:
  assumes "checkpoint_phase sys a rank s = Inr s1"
  shows "counter s1 = counter s"
    and "cur_state s1 = cur_state s"
    and "is_done s1 = is_done s"
    and "hid s1 = hid s"
    and "tx s1 = tx s"
    and "cur_value s1 = cur_value s"
    and "cur_log_prob s1 = cur_log_prob s"
    and "cur_reward s1 = cur_reward s"
    and "avg_episode_returns s1 = avg_episode_returns s"
    and "avg_episode_return s1 = avg_episode_return s"
    and "best_avg_episode_return s1 = best_avg_episode_return s"
    and "episode_total_rewards_list s1 = episode_total_rewards_list s"
    and "all_rewards_in_episode s1 = all_rewards_in_episode s"
    and "p_losses s1 = p_losses s"
    and "v_losses s1 = v_losses s"
    and "total_length s1 = total_length s"
    and "episode_number s1 = episode_number s"
    and "episode_length s1 = episode_length s"
    and "num_backprops s1 = num_backprops s"
    and "vals s1 = vals s"
    and "log_probs s1 = log_probs s"
    and "rewards s1 = rewards s"
    and "entropies s1 = entropies s"
  using assms by (cases rule: checkpoint_phase_cases; simp)+

lemma checkpoint_phase_trace:
  assumes "checkpoint_phase sys a rank s = Inr s1"
  shows "\<exists>ck. trace s1 = trace s @ ck \<and> list_all quiet (filter (\<lambda>c. \<not> is_save c) ck)
              \<and> (ck \<noteq> [] \<longrightarrow> rank = 0)"
  using assms
  by (cases rule: checkpoint_phase_cases) (auto simp: quiet_def checkpoint_due_True)

lemma pass_body_counter [simp]: "counter (pass_body sys a rank s) = counter s + 1"
  by (simp add: pass_body_def Let_def)

lemma pass_body_total_length [simp]:
  "total_length (pass_body sys a rank s) = total_length s + 1"
  by (simp add: pass_body_def Let_def)

lemma pass_body_best [simp]:
  "best_avg_episode_return (pass_body sys a rank s) = best_avg_episode_return s"
  by (simp add: pass_body_def Let_def)

lemma pass_body_is_done [simp]:
  "is_done (pass_body sys a rank s)
   = (snd (snd (env_response sys s)) \<or> max_episode_length a \<le> episode_length s + 1)"
  by (simp add: pass_body_def Let_def)

lemma pass_body_buffers [simp]:
  shows "length (vals (pass_body sys a rank s)) = Suc (length (vals s))"
    and "length (log_probs (pass_body sys a rank s)) = Suc (length (log_probs s))"
    and "rewards (pass_body sys a rank s) = rewards s @ [fst (snd (env_response sys s))]"
    and "length (entropies (pass_body sys a rank s)) = Suc (length (entropies s))"
  by (simp_all add: pass_body_def Let_def)

lemma rollout_step_Inr:
  "rollout_step sys a rank s = Inr s' \<longleftrightarrow>
     (\<exists>s1. checkpoint_phase sys a rank s = Inr s1 \<and> s' = pass_body sys a rank s1)"
  by (auto simp: rollout_step_def split: sum.splits)


lemma rollout_step_buffers:
  assumes "rollout_step sys a rank s = Inr s'"
  shows "length (vals s') = Suc (length (vals s))"
    and "length (log_probs s') = Suc (length (log_probs s))"
    and "length (rewards s') = Suc (length (rewards s))"
    and "length (entropies s') = Suc (length (entropies s))"
  using assms by (auto simp: rollout_step_Inr checkpoint_phase_keeps)


section \<open>Traces\<close>

lemma calls_since_append:
  "trace s' = trace s @ d \<Longrightarrow> calls_since s s' = d"
  by (simp add: calls_since_def)

lemma counted_from_append:
  "counted_from st xs \<Longrightarrow> counted_from 0 ys \<Longrightarrow> counted_from st (xs @ ys)"
  by (induction xs arbitrary: st) (auto split: if_splits)

lemma counted_from_quiet:
  "list_all (\<lambda>c. \<not> is_env_step c \<and> \<not> is_lock_call c) cs \<Longrightarrow> counted_from 0 cs"
  by (induction cs) auto

lemma episode_over_trace:
  "\<exists>ep. trace (episode_over sys rank s) = trace s @ ep \<and> list_all quiet ep"
  by (simp add: episode_over_def Let_def case_prod_beta quiet_def)

lemma pass_body_trace:
  "\<exists>ep. trace (pass_body sys a rank s)
         = trace s @ [EnvStep (fst (sample_action sys s)), LockAcquire, LockRelease] @ ep
       \<and> list_all quiet ep"
proof (cases "is_done (count_step sys (interact sys a s))")
  case True
  from episode_over_trace [of sys rank "count_step sys (interact sys a s)"]
  obtain ep where "trace (episode_over sys rank (count_step sys (interact sys a s)))
                   = trace (count_step sys (interact sys a s)) @ ep" and "list_all quiet ep"
    by blast
  with True show ?thesis by (simp add: pass_body_def Let_def)
next
  case False
  then show ?thesis by (simp add: pass_body_def Let_def)
qed

text \<open>What one pass adds to the trace: the calls of a checkpoint, if one is due, then
  the interaction followed by the locked increment, then the calls at the end of an
  episode, if it ended.\<close>

lemma rollout_step_trace:
  assumes "rollout_step sys a rank s = Inr s'"
  shows "\<exists>ck act ep. trace s' = trace s @ ck @ [EnvStep act, LockAcquire, LockRelease] @ ep
           \<and> list_all quiet (filter (\<lambda>c. \<not> is_save c) ck) \<and> (ck \<noteq> [] \<longrightarrow> rank = 0)
           \<and> list_all (\<lambda>c. \<not> is_env_step c \<and> \<not> is_lock_call c \<and> \<not> is_grad_call c) ck
           \<and> list_all quiet ep"
proof -
  from assms obtain s1 where c: "checkpoint_phase sys a rank s = Inr s1"
    and s': "s' = pass_body sys a rank s1"
    by (auto simp: rollout_step_Inr)
  from c show ?thesis
  proof (cases rule: checkpoint_phase_cases)
    case skip
    from pass_body_trace [of sys a rank s] obtain ep where
      "trace s' = trace s @ [EnvStep (fst (sample_action sys s)), LockAcquire, LockRelease] @ ep"
      and q: "list_all quiet ep"
      using s' skip by blast
    then have "trace s' = trace s @ [] @ [EnvStep (fst (sample_action sys s)), LockAcquire, LockRelease] @ ep"
      by simp
    moreover have "list_all quiet (filter (\<lambda>c. \<not> is_save c) [])"
      and "list_all (\<lambda>c. \<not> is_env_step c \<and> \<not> is_lock_call c \<and> \<not> is_grad_call c) []"
      by simp_all
    ultimately show ?thesis using q by blast
  next
    case save
    from pass_body_trace [of sys a rank s1] obtain ep where
      e: "trace s' = trace s1 @ [EnvStep (fst (sample_action sys s1)), LockAcquire, LockRelease] @ ep"
      and q: "list_all quiet ep"
      using s' by blast
    let ?ck = "TorchSave \<lparr>ck_total_length = total_length s,
                   ck_episode_number = episode_number s,
                   ck_counter = sint (counter s),
                   ck_state_dict = state_dict sys (world s),
                   ck_optimizer = optimizer_state_dict sys (world s)\<rparr> (total_length s)
               # Print # (if ext_gt (avg_episode_return s) (best_avg_episode_return s)
                          then [CopyBest (total_length s)] else [])"
    have t1: "trace s1 = trace s @ ?ck" using save by simp
    have r: "rank = 0" using save by (simp add: checkpoint_due_True)
    have "trace s' = trace s @ ?ck @ [EnvStep (fst (sample_action sys s1)), LockAcquire, LockRelease] @ ep"
      using e t1 by simp
    moreover have "list_all quiet (filter (\<lambda>c. \<not> is_save c) ?ck)"
      by (simp add: quiet_def)
    moreover have "list_all (\<lambda>c. \<not> is_env_step c \<and> \<not> is_lock_call c \<and> \<not> is_grad_call c) ?ck"
      by simp
    ultimately show ?thesis using q r by blast
  qed
qed


lemma quiet_filters:
  assumes "list_all quiet d"
  shows "filter is_env_step d = []" and "filter is_grad_call d = []"
    and "filter is_save d = []" and "counted_from 0 d"
proof -
  from assms show "filter is_env_step d = []" "filter is_grad_call d = []"
    "filter is_save d = []"
    by (auto simp: filter_empty_conv list_all_iff quiet_def)
  from assms have "list_all (\<lambda>c. \<not> is_env_step c \<and> \<not> is_lock_call c) d"
    by (auto simp: list_all_iff quiet_def)
  then show "counted_from 0 d" by (rule counted_from_quiet)
qed

lemma pass_calls_Nil [simp]: "pass_calls rank 0 []"
  by (simp add: pass_calls_def)

lemma pass_calls_append:
  "pass_calls rank j d1 \<Longrightarrow> pass_calls rank k d2 \<Longrightarrow> pass_calls rank (j + k) (d1 @ d2)"
  by (auto simp: pass_calls_def counted_from_append)

lemma pass_calls_quiet: "list_all quiet d \<Longrightarrow> pass_calls rank 0 d"
  by (simp add: pass_calls_def quiet_filters)

lemma rollout_step_calls:
  assumes "rollout_step sys a rank s = Inr s'"
  shows "\<exists>d. trace s' = trace s @ d \<and> pass_calls rank 1 d"
proof -
  from rollout_step_trace [OF assms] obtain ck act ep where
    t: "trace s' = trace s @ ck @ [EnvStep act, LockAcquire, LockRelease] @ ep"
    and r: "ck \<noteq> [] \<longrightarrow> rank = 0"
    and c: "list_all (\<lambda>c. \<not> is_env_step c \<and> \<not> is_lock_call c \<and> \<not> is_grad_call c) ck"
    and q: "list_all quiet ep"
    by blast
  from c have c1: "counted_from 0 ck"
    by (intro counted_from_quiet) (auto simp: list_all_iff)
  from c have c2: "filter is_grad_call ck = []" "filter is_env_step ck = []"
    by (auto simp: filter_empty_conv list_all_iff)
  have "pass_calls rank 0 ck"
    using c1 c2 r by (cases "ck = []") (auto simp: pass_calls_def)
  moreover have "pass_calls rank 1 [EnvStep act, LockAcquire, LockRelease]"
    by (simp add: pass_calls_def)
  moreover have "pass_calls rank 0 ep" using q by (rule pass_calls_quiet)
  ultimately have "pass_calls rank (0 + (1 + 0)) (ck @ [EnvStep act, LockAcquire, LockRelease] @ ep)"
    by (intro pass_calls_append)
  with t show ?thesis by auto
qed

text \<open>The rollout loop, summarised: how many passes ran, what they called, and what they
  did to the counter, the step total and the buffers.\<close>

lemma rollout_loop_summary:
  "rollout_loop sys a rank n s = Inr s' \<Longrightarrow>
     \<exists>k d. trace s' = trace s @ d \<and> pass_calls rank k d \<and> k \<le> n \<and> (k < n \<longrightarrow> is_done s')
       \<and> counter s' = counter s + of_nat k
       \<and> total_length s' = total_length s + int k
       \<and> best_avg_episode_return s' = best_avg_episode_return s
       \<and> length (vals s') = length (vals s) + k
       \<and> length (log_probs s') = length (log_probs s) + k
       \<and> length (rewards s') = length (rewards s) + k
       \<and> length (entropies s') = length (entropies s) + k"
proof (induction n arbitrary: s)
  case 0
  then have "s' = s" by simp
  then show ?case by (intro exI [of _ 0] exI [of _ "[]"]) simp
next
  case (Suc n)
  from Suc.prems obtain s1 where st: "rollout_step sys a rank s = Inr s1"
    and rest: "(if is_done s1 then Inr s1 else rollout_loop sys a rank n s1) = Inr s'"
    by (auto split: sum.splits)
  from rollout_step_calls [OF st] obtain d1 where
    d1: "trace s1 = trace s @ d1" "pass_calls rank 1 d1" by blast
  from st obtain s0 where s0: "checkpoint_phase sys a rank s = Inr s0"
    "s1 = pass_body sys a rank s0"
    by (auto simp: rollout_step_Inr)
  have f1: "counter s1 = counter s + 1" "total_length s1 = total_length s + 1"
    "best_avg_episode_return s1 = best_avg_episode_return s"
    using s0 by (simp_all add: checkpoint_phase_keeps)
  note b1 = rollout_step_buffers [OF st]
  show ?case
  proof (cases "is_done s1")
    case True
    with rest have "s' = s1" by simp
    with d1 f1 b1 True show ?thesis
      by (intro exI [of _ 1] exI [of _ d1]) simp
  next
    case False
    with rest have "rollout_loop sys a rank n s1 = Inr s'" by simp
    from Suc.IH [OF this] obtain k d where
      k: "trace s' = trace s1 @ d" "pass_calls rank k d" "k \<le> n" "k < n \<longrightarrow> is_done s'"
        "counter s' = counter s1 + of_nat k"
        "total_length s' = total_length s1 + int k"
        "best_avg_episode_return s' = best_avg_episode_return s1"
        "length (vals s') = length (vals s1) + k"
        "length (log_probs s') = length (log_probs s1) + k"
        "length (rewards s') = length (rewards s1) + k"
        "length (entropies s') = length (entropies s1) + k"
      by blast
    have "pass_calls rank (1 + k) (d1 @ d)"
      using d1(2) k(2) by (rule pass_calls_append)
    with d1(1) k f1 b1 show ?thesis
      by (intro exI [of _ "Suc k"] exI [of _ "d1 @ d"]) simp
  qed
qed



section \<open>The rollout\<close>

lemma rollout_phase_summary:
  assumes "rollout_phase sys a rank s = Inr s'"
  shows "\<exists>k d. trace s' = trace s @ LoadStateDict # d \<and> pass_calls rank k d
           \<and> k \<le> nat (num_steps a) \<and> (k < nat (num_steps a) \<longrightarrow> is_done s')
           \<and> counter s' = counter s + of_nat k
           \<and> total_length s' = total_length s + int k
           \<and> best_avg_episode_return s' = best_avg_episode_return s
           \<and> length (vals s') = k \<and> length (log_probs s') = k
           \<and> length (rewards s') = k \<and> length (entropies s') = k"
proof -
  let ?s1 = "(emit sys LoadStateDict s)
               \<lparr>hid := (if is_done (emit sys LoadStateDict s) then zeros_hidden sys
                        else hid (emit sys LoadStateDict s)),
                vals := [], log_probs := [], rewards := [], entropies := []\<rparr>"
  from assms have "rollout_loop sys a rank (nat (num_steps a)) ?s1 = Inr s'"
    by (simp add: rollout_phase_def Let_def)
  from rollout_loop_summary [OF this] show ?thesis by simp
qed

text \<open>The buffers a rollout is entered with play no part in it.\<close>

lemma rollout_phase_forgets:
  "rollout_phase sys a rank (s\<lparr>vals := xs, log_probs := ys, rewards := zs, entropies := ws\<rparr>)
   = rollout_phase sys a rank s"
  by (simp add: rollout_phase_def emit_def Let_def)

text \<open>A loop that ran at least one pass ended with a pass.\<close>

lemma rollout_loop_last:
  "rollout_loop sys a rank (Suc n) s = Inr s' \<Longrightarrow> \<exists>p. rollout_step sys a rank p = Inr s'"
proof (induction n arbitrary: s)
  case 0
  then show ?case by (auto split: sum.splits if_splits)
next
  case (Suc n)
  from Suc.prems obtain s1 where st: "rollout_step sys a rank s = Inr s1"
    and rest: "(if is_done s1 then Inr s1 else rollout_loop sys a rank (Suc n) s1) = Inr s'"
    by (auto split: sum.splits)
  show ?case
  proof (cases "is_done s1")
    case True
    with rest st show ?thesis by auto
  next
    case False
    with rest have "rollout_loop sys a rank (Suc n) s1 = Inr s'" by simp
    then show ?thesis by (rule Suc.IH)
  qed
qed

lemma pass_body_cur_state:
  assumes "\<not> is_done (pass_body sys a rank s)"
  shows "cur_state (pass_body sys a rank s) = fst (env_response sys s)"
proof -
  from assms have "\<not> is_done (count_step sys (interact sys a s))" by simp
  then show ?thesis by (simp add: pass_body_def Let_def)
qed

lemma rollout_phase_last:
  assumes "rollout_phase sys a rank s = Inr s'" and "0 < num_steps a"
  shows "\<exists>p0 p. checkpoint_phase sys a rank p0 = Inr p \<and> s' = pass_body sys a rank p"
proof -
  from assms(2) obtain n where n: "nat (num_steps a) = Suc n"
    by (cases "nat (num_steps a)") auto
  from assms(1) have "\<exists>s1. rollout_loop sys a rank (Suc n) s1 = Inr s'"
    unfolding rollout_phase_def Let_def n by blast
  then obtain p0 where "rollout_step sys a rank p0 = Inr s'"
    using rollout_loop_last by blast
  then show ?thesis by (auto simp: rollout_step_Inr)
qed



section \<open>A concrete run\<close>

lemmas eval_defs = demo_sys_def demo_start_def init_worker_def scripted_def demo_args_def
  rollout_phase_def emit_def rollout_step_def pass_body_def checkpoint_phase_def
  checkpoint_due_def save_checkpoint_def interact_def forward_def count_step_def
  record_step_def episode_over_def Let_def

lemmas update_defs = update_phase_def apply_update_def terminal_value_def push_grads_def
  compute_losses_def gae_body_def nth_py_def train_iter_def

lemma demo_rollout: "rollout_phase demo_sys demo_args 0 demo_start = Inr demo_rolled"
  by (simp add: eval_defs demo_rolled_def numeral_2_eq_2)

lemma demo_update: "update_phase demo_sys demo_args 0 demo_rolled = Inr demo_trained"
  by (simp add: eval_defs update_defs demo_rolled_def demo_trained_def numeral_2_eq_2)

lemma demo_train_iter: "train_iter demo_sys demo_args 0 demo_start = Inr demo_trained"
  by (simp add: train_iter_def demo_rollout demo_update)

lemma demo_rollout_again:
  "rollout_phase demo_sys demo_args 0 demo_trained = Inr demo_rolled_again"
  by (simp add: eval_defs demo_trained_def demo_rolled_again_def numeral_2_eq_2
      avg_over_num_episodes_def)



section \<open>The update after the rollout\<close>

lemma push_grads_keeps [simp]:
  shows "counter (push_grads sys s) = counter s"
    and "cur_state (push_grads sys s) = cur_state s"
    and "is_done (push_grads sys s) = is_done s"
    and "hid (push_grads sys s) = hid s"
    and "tx (push_grads sys s) = tx s"
    and "cur_value (push_grads sys s) = cur_value s"
    and "cur_log_prob (push_grads sys s) = cur_log_prob s"
    and "cur_reward (push_grads sys s) = cur_reward s"
    and "avg_episode_returns (push_grads sys s) = avg_episode_returns s"
    and "avg_episode_return (push_grads sys s) = avg_episode_return s"
    and "best_avg_episode_return (push_grads sys s) = best_avg_episode_return s"
    and "episode_total_rewards_list (push_grads sys s) = episode_total_rewards_list s"
    and "all_rewards_in_episode (push_grads sys s) = all_rewards_in_episode s"
    and "p_losses (push_grads sys s) = p_losses s"
    and "v_losses (push_grads sys s) = v_losses s"
    and "total_length (push_grads sys s) = total_length s"
    and "episode_number (push_grads sys s) = episode_number s"
    and "episode_length (push_grads sys s) = episode_length s"
    and "num_backprops (push_grads sys s) = num_backprops s"
    and "vals (push_grads sys s) = vals s"
    and "log_probs (push_grads sys s) = log_probs s"
    and "rewards (push_grads sys s) = rewards s"
    and "entropies (push_grads sys s) = entropies s"
  by (simp_all add: push_grads_def)

lemma push_grads_trace [simp]:
  "trace (push_grads sys s) = trace s @ [EnsureSharedGrads]"
  by (simp add: push_grads_def)

lemma push_grads_world [simp]:
  "world (push_grads sys s) = effect sys EnsureSharedGrads (world s)"
  by (simp add: push_grads_def effect_def)

lemma emit_effect:
  "c \<noteq> EnsureSharedGrads \<Longrightarrow> world (emit sys c s) = effect sys c (world s)"
  by (simp add: effect_def)

lemma replay_snoc [simp]: "replay sys w (cs @ [c]) = effect sys c (replay sys w cs)"
  by (simp add: replay_def)

lemma replay_Nil [simp]: "replay sys w [] = w"
  by (simp add: replay_def)

lemma replay_append: "replay sys w (cs @ ds) = replay sys (replay sys w cs) ds"
  by (simp add: replay_def)

lemma apply_update_keeps [simp]:
  shows "counter (apply_update sys a rank l s) = counter s"
    and "cur_state (apply_update sys a rank l s) = cur_state s"
    and "is_done (apply_update sys a rank l s) = is_done s"
    and "hid (apply_update sys a rank l s) = hid s"
    and "tx (apply_update sys a rank l s) = tx s"
    and "cur_value (apply_update sys a rank l s) = cur_value s"
    and "cur_log_prob (apply_update sys a rank l s) = cur_log_prob s"
    and "cur_reward (apply_update sys a rank l s) = cur_reward s"
    and "avg_episode_returns (apply_update sys a rank l s) = avg_episode_returns s"
    and "avg_episode_return (apply_update sys a rank l s) = avg_episode_return s"
    and "best_avg_episode_return (apply_update sys a rank l s) = best_avg_episode_return s"
    and "episode_total_rewards_list (apply_update sys a rank l s) = episode_total_rewards_list s"
    and "all_rewards_in_episode (apply_update sys a rank l s) = all_rewards_in_episode s"
    and "total_length (apply_update sys a rank l s) = total_length s"
    and "episode_number (apply_update sys a rank l s) = episode_number s"
    and "episode_length (apply_update sys a rank l s) = episode_length s"
    and "vals (apply_update sys a rank l s) = vals s"
    and "log_probs (apply_update sys a rank l s) = log_probs s"
    and "rewards (apply_update sys a rank l s) = rewards s"
    and "entropies (apply_update sys a rank l s) = entropies s"
  by (simp_all add: apply_update_def Let_def)

text \<open>What the update calls, and that the world it leaves is the replay of those calls.\<close>

lemma apply_update_trace:
  "\<exists>post. trace (apply_update sys a rank l s)
           = trace s @ [ZeroGrad,
                        Backward (acc_policy_loss l + value_loss_coef a * acc_value_loss l),
                        ClipGradNorm, EnsureSharedGrads, OptimizerStep] @ post
         \<and> list_all quiet post
         \<and> world (apply_update sys a rank l s)
           = replay sys (world s)
               ([ZeroGrad, Backward (acc_policy_loss l + value_loss_coef a * acc_value_loss l),
                 ClipGradNorm, EnsureSharedGrads, OptimizerStep] @ post)"
proof -
  let ?L = "acc_policy_loss l + value_loss_coef a * acc_value_loss l"
  let ?g = "[ZeroGrad, Backward ?L, ClipGradNorm, EnsureSharedGrads, OptimizerStep]"
  let ?nb = "num_backprops s + 1"
  let ?log = "[AddScalar ''policy_loss'' (acc_policy_loss l) ?nb,
               AddScalar ''value_loss'' (acc_value_loss l) ?nb]"
  let ?p1 = "if length (p_losses s) + 1 > 1000 then [Print] else []"
  let ?p2 = "if rank = 0 \<and> verbose_num_steps a
             then Print # (if ?nb mod 100 = 0 then [Print] else []) else []"
  let ?post = "?log @ ?p1 @ ?p2"
  have t: "trace (apply_update sys a rank l s) = trace s @ ?g @ ?post"
    by (simp add: apply_update_def Let_def)
  have q: "list_all quiet ?post"
    by (simp add: quiet_def)
  have w: "world (apply_update sys a rank l s) = replay sys (world s) (?g @ ?post)"
    by (simp add: apply_update_def Let_def replay_def effect_def)
  from t q w show ?thesis by blast
qed

lemma update_phase_Inr:
  assumes "update_phase sys a rank s = Inr s'"
  obtains l where
    "compute_losses a (terminal_value sys s) (vals s) (rewards s) (log_probs s) (entropies s)
     = Inr l"
    and "rewards s \<noteq> []"
    and "s' = apply_update sys a rank l
                ((if \<not> is_done s then s\<lparr>cur_value := terminal_value sys s\<rparr> else s)
                   \<lparr>vals := vals s @ [terminal_value sys s]\<rparr>)"
  using assms
  by (cases "is_done s") (auto simp: update_phase_def Let_def split: sum.splits if_splits)


section \<open>The claims about the rollout and its buffers\<close>

text \<open>
  Claim C7. A rollout collects at most \<open>num_steps\<close> tuples: as many values, log
  probabilities, rewards and entropies as it made environment steps. It stops before
  \<open>num_steps\<close> only when \<open>done\<close> holds. The four buffers are emptied when the pass
  through the outer loop begins, so whatever they held before plays no part in the
  rollout or in the update that follows it.
\<close>

theorem C7_rollout_bounded_and_fresh:
  assumes "rollout_phase sys a rank s = Inr s'"
  shows "length (rewards s') \<le> nat (num_steps a)
       \<and> length (vals s') = length (rewards s')
       \<and> length (log_probs s') = length (rewards s')
       \<and> length (entropies s') = length (rewards s')
       \<and> length (filter is_env_step (calls_since s s')) = length (rewards s')
       \<and> (length (rewards s') < nat (num_steps a) \<longrightarrow> is_done s')
       \<and> rollout_phase sys a rank
            (s\<lparr>vals := xs, log_probs := ys, rewards := zs, entropies := ws\<rparr>) = Inr s'
       \<and> train_iter sys a rank
            (s\<lparr>vals := xs, log_probs := ys, rewards := zs, entropies := ws\<rparr>)
          = train_iter sys a rank s"
proof -
  from rollout_phase_summary [OF assms] obtain k d where
    t: "trace s' = trace s @ LoadStateDict # d" and p: "pass_calls rank k d"
    and k: "k \<le> nat (num_steps a)" "k < nat (num_steps a) \<longrightarrow> is_done s'"
    and l: "length (vals s') = k" "length (log_probs s') = k" "length (rewards s') = k"
      "length (entropies s') = k"
    by blast
  from t have "calls_since s s' = LoadStateDict # d" by (rule calls_since_append)
  with p have "length (filter is_env_step (calls_since s s')) = k"
    by (simp add: pass_calls_def)
  moreover have "train_iter sys a rank
            (s\<lparr>vals := xs, log_probs := ys, rewards := zs, entropies := ws\<rparr>)
          = train_iter sys a rank s"
    by (simp add: train_iter_def rollout_phase_forgets)
  ultimately show ?thesis using k l assms by (simp add: rollout_phase_forgets)
qed

theorem C7_rollout_bounded_and_fresh_witness:
  "rollout_phase demo_sys demo_args 0 demo_start = Inr demo_rolled
   \<and> length (rewards demo_rolled) = 2 \<and> nat (num_steps demo_args) = 2
   \<and> length (filter is_env_step (calls_since demo_start demo_rolled)) = 2
   \<and> rollout_phase demo_sys demo_args 0
        (demo_start\<lparr>vals := [7], log_probs := [8], rewards := [9], entropies := [3]\<rparr>)
      = Inr demo_rolled"
proof -
  note t = C7_rollout_bounded_and_fresh
    [OF demo_rollout, where xs = "[7]" and ys = "[8]" and zs = "[9]" and ws = "[3]"]
  have a: "length (rewards demo_rolled) = 2" by (simp add: demo_rolled_def)
  have b: "nat (num_steps demo_args) = 2" by (simp add: demo_args_def)
  show ?thesis using t a b demo_rollout by simp
qed

text \<open>
  Claim C8. When the backward loop starts, \<open>values\<close> (with the bootstrap value appended)
  has exactly one more element than \<open>rewards\<close>, and \<open>rewards\<close>, \<open>log_probs\<close> and
  \<open>entropies\<close> have the same length; so each of \<open>values[i]\<close>, \<open>values[i+1]\<close>,
  \<open>rewards[i]\<close>, \<open>log_probs[i]\<close>, \<open>entropies[i]\<close> for \<open>i\<close> below \<open>len(rewards)\<close> is
  in bounds, and the update never raises IndexError.
\<close>

theorem C8_gae_reads_in_bounds:
  assumes "rollout_phase sys a rank s = Inr s'"
  shows "length (vals s' @ [terminal_value sys s']) = Suc (length (rewards s'))
       \<and> length (log_probs s') = length (rewards s')
       \<and> length (entropies s') = length (rewards s')
       \<and> (\<forall>i < length (rewards s').
             nth_py (vals s' @ [terminal_value sys s']) i
               = Inr ((vals s' @ [terminal_value sys s']) ! i)
           \<and> nth_py (vals s' @ [terminal_value sys s']) (i + 1)
               = Inr ((vals s' @ [terminal_value sys s']) ! (i + 1))
           \<and> nth_py (rewards s') i = Inr (rewards s' ! i)
           \<and> nth_py (log_probs s') i = Inr (log_probs s' ! i)
           \<and> nth_py (entropies s') i = Inr (entropies s' ! i))
       \<and> update_phase sys a rank s' \<noteq> Inl IndexError"
proof -
  from rollout_phase_summary [OF assms] obtain k where
    l: "length (vals s') = k" "length (log_probs s') = k" "length (rewards s') = k"
      "length (entropies s') = k"
    by blast
  have c: "compute_losses a (terminal_value sys s') (vals s') (rewards s') (log_probs s')
             (entropies s')
           = Inr (spec_losses a (terminal_value sys s') (vals s' @ [terminal_value sys s'])
                    (rewards s') (log_probs s') (entropies s') 0)"
    by (rule compute_losses_total) (simp_all add: l)
  have "update_phase sys a rank s' \<noteq> Inl IndexError"
    using c by (cases "is_done s'") (simp_all add: update_phase_def Let_def)
  then show ?thesis using l by (simp add: nth_py_def)
qed

theorem C8_gae_reads_in_bounds_witness:
  "rollout_phase demo_sys demo_args 0 demo_start = Inr demo_rolled
   \<and> length (vals demo_rolled @ [terminal_value demo_sys demo_rolled]) = 3
   \<and> length (rewards demo_rolled) = 2
   \<and> nth_py (vals demo_rolled @ [terminal_value demo_sys demo_rolled]) (1 + 1) = Inr 2
   \<and> update_phase demo_sys demo_args 0 demo_rolled \<noteq> Inl IndexError"
proof -
  note t = C8_gae_reads_in_bounds [OF demo_rollout]
  have a: "length (rewards demo_rolled) = 2" "length (vals demo_rolled) = 2"
    by (simp_all add: demo_rolled_def)
  have b: "(vals demo_rolled @ [terminal_value demo_sys demo_rolled]) ! (1 + 1) = 2"
    by (simp add: demo_rolled_def terminal_value_def forward_def demo_sys_def scripted_def)
  from t a have "nth_py (vals demo_rolled @ [terminal_value demo_sys demo_rolled]) (1 + 1)
                 = Inr ((vals demo_rolled @ [terminal_value demo_sys demo_rolled]) ! (1 + 1))"
    by (metis one_less_numeral_iff semiring_norm(76))
  with b show ?thesis using t a demo_rollout by simp
qed



text \<open>
  Claim C2. At the end of a rollout (of at least one pass) \<open>done\<close> holds exactly when
  the last \<open>env.step\<close> reported it or the episode length reached
  \<open>max_episode_length\<close>. The value \<open>R\<close> is 0 when \<open>done\<close> holds, and otherwise the
  critic's estimate for the observation that this last \<open>env.step\<close> returned. The
  update that follows does run, and it is this \<open>R\<close> that it appends to \<open>values\<close> and
  that seeds the backward accumulation: the losses are those computed from \<open>R\<close>, the
  accumulated return is the discounted sum of the rewards plus the discounted \<open>R\<close>, and
  the loss handed to \<open>backward()\<close> is \<open>policy_loss + value_loss_coef * value_loss\<close> of
  these losses.
\<close>

theorem C2_terminal_bootstrap:
  assumes "rollout_phase sys a rank s = Inr s'" and "0 < num_steps a"
  shows "\<exists>p l s''. s' = pass_body sys a rank p
           \<and> is_done s'
               = (snd (snd (env_response sys p)) \<or> max_episode_length a \<le> episode_length p + 1)
           \<and> terminal_value sys s'
               = (if is_done s' then 0
                  else fst (net sys (world s') (fst (env_response sys p))
                              (if task_has_language_instructions sys then Some (tx s') else None)
                              (hid s')))
           \<and> (\<forall>u. update_phase sys a rank s' = Inr u \<longrightarrow>
                  vals u = vals s' @ [terminal_value sys s'] \<and> is_done u = is_done s')
           \<and> compute_losses a (terminal_value sys s') (vals s') (rewards s') (log_probs s')
                (entropies s') = Inr l
           \<and> l = spec_losses a (terminal_value sys s') (vals s' @ [terminal_value sys s'])
                    (rewards s') (log_probs s') (entropies s') 0
           \<and> acc_R l = (\<Sum>k = 0..<length (rewards s'). gamma a ^ k * rewards s' ! k)
                        + gamma a ^ length (rewards s') * terminal_value sys s'
           \<and> update_phase sys a rank s' = Inr s''
           \<and> vals s'' = vals s' @ [terminal_value sys s']
           \<and> filter is_grad_call (calls_since s' s'')
               = [ZeroGrad, Backward (acc_policy_loss l + value_loss_coef a * acc_value_loss l),
                  ClipGradNorm, EnsureSharedGrads, OptimizerStep]"
proof -
  let ?R = "terminal_value sys s'"
  from rollout_phase_last [OF assms] obtain p where s': "s' = pass_body sys a rank p"
    by blast
  have d: "is_done s'
           = (snd (snd (env_response sys p)) \<or> max_episode_length a \<le> episode_length p + 1)"
    by (simp add: s')
  have c: "\<not> is_done s' \<Longrightarrow> cur_state s' = fst (env_response sys p)"
    unfolding s' by (rule pass_body_cur_state)
  have r: "?R = (if is_done s' then 0
              else fst (net sys (world s') (fst (env_response sys p))
                          (if task_has_language_instructions sys then Some (tx s') else None)
                          (hid s')))"
    using c by (simp add: terminal_value_def forward_def)
  have u: "vals u = vals s' @ [?R] \<and> is_done u = is_done s'"
    if "update_phase sys a rank s' = Inr u" for u
    using that by (rule update_phase_Inr) simp
  from rollout_phase_summary [OF assms(1)] obtain k where
    len: "length (vals s') = k" "length (log_probs s') = k" "length (rewards s') = k"
      "length (entropies s') = k"
    by blast
  define l where "l = spec_losses a ?R (vals s' @ [?R]) (rewards s') (log_probs s')
                        (entropies s') 0"
  have cl: "compute_losses a ?R (vals s') (rewards s') (log_probs s') (entropies s') = Inr l"
    unfolding l_def by (rule compute_losses_total) (simp_all add: len)
  have ret: "acc_R l = (\<Sum>k = 0..<length (rewards s'). gamma a ^ k * rewards s' ! k)
                       + gamma a ^ length (rewards s') * ?R"
    by (simp add: l_def spec_losses_def spec_return_def)
  have ne: "rewards s' \<noteq> []" by (simp add: s')
  let ?s2 = "(if \<not> is_done s' then s'\<lparr>cur_value := ?R\<rparr> else s')\<lparr>vals := vals s' @ [?R]\<rparr>"
  define s'' where "s'' = apply_update sys a rank l ?s2"
  have up: "update_phase sys a rank s' = Inr s''"
    using cl ne by (cases "is_done s'") (simp_all add: update_phase_def Let_def s''_def)
  let ?g = "[ZeroGrad, Backward (acc_policy_loss l + value_loss_coef a * acc_value_loss l),
             ClipGradNorm, EnsureSharedGrads, OptimizerStep]"
  have s2: "trace ?s2 = trace s'" by simp
  from apply_update_trace [of sys a rank l ?s2] obtain post where
    t: "trace s'' = trace s' @ ?g @ post" and q: "list_all quiet post"
    unfolding s''_def [symmetric] s2 by blast
  from t have "calls_since s' s'' = ?g @ post" by (rule calls_since_append)
  moreover have "filter is_grad_call post = []" using q by (rule quiet_filters)
  ultimately have f: "filter is_grad_call (calls_since s' s'') = ?g" by simp
  have v: "vals s'' = vals s' @ [?R]" using u [OF up] by simp
  from s' d r u cl l_def ret up v f show ?thesis by blast
qed

lemma demo_update_calls:
  "filter is_grad_call (calls_since demo_rolled demo_trained)
   = [ZeroGrad, Backward (23 / 10), ClipGradNorm, EnsureSharedGrads, OptimizerStep]"
  by (simp add: calls_since_def demo_rolled_def demo_trained_def)

theorem C2_terminal_bootstrap_witness:
  "rollout_phase demo_sys demo_args 0 demo_start = Inr demo_rolled
   \<and> \<not> is_done demo_rolled \<and> terminal_value demo_sys demo_rolled = 2
   \<and> update_phase demo_sys demo_args 0 demo_rolled = Inr demo_trained
   \<and> vals demo_trained = vals demo_rolled @ [2]
   \<and> filter is_grad_call (calls_since demo_rolled demo_trained)
       = [ZeroGrad, Backward (23 / 10), ClipGradNorm, EnsureSharedGrads, OptimizerStep]
   \<and> rollout_phase demo_sys demo_args 0 demo_trained = Inr demo_rolled_again
   \<and> is_done demo_rolled_again \<and> terminal_value demo_sys demo_rolled_again = 0"
proof -
  have n: "0 < num_steps demo_args" by (simp add: demo_args_def)
  note t1 = C2_terminal_bootstrap [OF demo_rollout n]
  note t2 = C2_terminal_bootstrap [OF demo_rollout_again n]
  have a: "\<not> is_done demo_rolled" "is_done demo_rolled_again"
    by (simp_all add: demo_rolled_def demo_rolled_again_def)
  from t2 a have z: "terminal_value demo_sys demo_rolled_again = 0" by auto
  have two: "terminal_value demo_sys demo_rolled = 2"
    using t1 a by (simp add: terminal_value_def forward_def demo_sys_def scripted_def
        demo_rolled_def)
  from t1 demo_update two have "vals demo_trained = vals demo_rolled @ [2]" by auto
  with z two a demo_rollout demo_rollout_again demo_update demo_update_calls
  show ?thesis by simp
qed


section \<open>The gradient push\<close>

lemma ensure_shared_grads_prefix:
  "ensure_shared_grads ps ss
   = take (length (takeWhile (\<lambda>g. g = None) (take (length ps) ss))) ps
     @ drop (length (takeWhile (\<lambda>g. g = None) (take (length ps) ss))) ss"
  by (induction ps ss rule: ensure_shared_grads.induct) simp_all

lemma train_iter_Inr:
  assumes "train_iter sys a rank s = Inr s'"
  obtains s1 where "rollout_phase sys a rank s = Inr s1" and "update_phase sys a rank s1 = Inr s'"
  using assms by (auto simp: train_iter_def split: sum.splits)

text \<open>One pass through the outer loop, summarised.\<close>

lemma train_iter_summary:
  assumes "train_iter sys a rank s = Inr s'"
  shows "\<exists>s1 l k d post.
           rollout_phase sys a rank s = Inr s1
         \<and> compute_losses a (terminal_value sys s1) (vals s1) (rewards s1) (log_probs s1)
             (entropies s1) = Inr l
         \<and> trace s1 = trace s @ LoadStateDict # d
         \<and> pass_calls rank k d \<and> k \<le> nat (num_steps a)
         \<and> trace s' = trace s1 @ [ZeroGrad,
                Backward (acc_policy_loss l + value_loss_coef a * acc_value_loss l),
                ClipGradNorm, EnsureSharedGrads, OptimizerStep] @ post
         \<and> list_all quiet post
         \<and> world s' = replay sys (world s1) (calls_since s1 s')
         \<and> counter s' = counter s + of_nat k
         \<and> total_length s' = total_length s + int k
         \<and> best_avg_episode_return s' = best_avg_episode_return s"
proof -
  from assms obtain s1 where r: "rollout_phase sys a rank s = Inr s1"
    and u: "update_phase sys a rank s1 = Inr s'"
    by (rule train_iter_Inr)
  from rollout_phase_summary [OF r] obtain k d where
    t1: "trace s1 = trace s @ LoadStateDict # d" and p: "pass_calls rank k d"
    and k: "k \<le> nat (num_steps a)"
    and f: "counter s1 = counter s + of_nat k" "total_length s1 = total_length s + int k"
      "best_avg_episode_return s1 = best_avg_episode_return s"
    by blast
  let ?s2 = "(if \<not> is_done s1 then s1\<lparr>cur_value := terminal_value sys s1\<rparr> else s1)
               \<lparr>vals := vals s1 @ [terminal_value sys s1]\<rparr>"
  from u obtain l where
    c: "compute_losses a (terminal_value sys s1) (vals s1) (rewards s1) (log_probs s1)
          (entropies s1) = Inr l"
    and s': "s' = apply_update sys a rank l ?s2"
    by (rule update_phase_Inr)
  have s2: "trace ?s2 = trace s1" "world ?s2 = world s1" "counter ?s2 = counter s1"
    "total_length ?s2 = total_length s1"
    "best_avg_episode_return ?s2 = best_avg_episode_return s1"
    by simp_all
  let ?g = "[ZeroGrad, Backward (acc_policy_loss l + value_loss_coef a * acc_value_loss l),
             ClipGradNorm, EnsureSharedGrads, OptimizerStep]"
  from apply_update_trace [of sys a rank l ?s2] obtain post where
    t2: "trace s' = trace s1 @ ?g @ post" and q: "list_all quiet post"
    and w: "world s' = replay sys (world s1) (?g @ post)"
    unfolding s' [symmetric] s2 by blast
  from t2 have "calls_since s1 s' = ?g @ post" by (rule calls_since_append)
  with w have w': "world s' = replay sys (world s1) (calls_since s1 s')" by simp
  have f': "counter s' = counter s + of_nat k" "total_length s' = total_length s + int k"
    "best_avg_episode_return s' = best_avg_episode_return s"
    using f by (simp_all add: s')
  from r c t1 p k t2 q w' f' show ?thesis by blast
qed

text \<open>
  Claim C3. In every pass through the outer loop that completes, the calls that touch
  gradients are, in this order and once each: \<open>optimizer.zero_grad()\<close>, \<open>backward()\<close>
  on \<open>policy_loss + value_loss_coef * value_loss\<close>, the gradient clipping, one
  \<open>ensure_shared_grads\<close>, one \<open>optimizer.step()\<close>. \<open>ensure_shared_grads\<close> gives each
  shared parameter the gradient of its local counterpart up to the first shared
  parameter whose gradient is already set, where it returns and writes nothing more; so
  with the first shared gradient set it writes nothing, and with none set and as many
  local as shared parameters it copies them all.
\<close>

theorem C3_shared_gradient_discipline:
  assumes "train_iter sys a rank s = Inr s'"
  shows "\<exists>s1 l. rollout_phase sys a rank s = Inr s1
           \<and> compute_losses a (terminal_value sys s1) (vals s1) (rewards s1) (log_probs s1)
               (entropies s1) = Inr l
           \<and> filter is_grad_call (calls_since s s')
               = [ZeroGrad, Backward (acc_policy_loss l + value_loss_coef a * acc_value_loss l),
                  ClipGradNorm, EnsureSharedGrads, OptimizerStep]
           \<and> world s' = replay sys (world s1) (calls_since s1 s')
           \<and> effect sys EnsureSharedGrads w
               = set_shared_grads sys
                   (ensure_shared_grads (model_grads sys w) (shared_grads sys w)) w
           \<and> ensure_shared_grads ps ss
               = take (length (takeWhile (\<lambda>g. g = None) (take (length ps) ss))) ps
                 @ drop (length (takeWhile (\<lambda>g. g = None) (take (length ps) ss))) ss
           \<and> ensure_shared_grads ps (Some g # ss) = Some g # ss
           \<and> (length ps = length ss \<and> list_all (\<lambda>g. g = None) ss
                \<longrightarrow> ensure_shared_grads ps ss = ps)"
proof -
  from train_iter_summary [OF assms] obtain s1 l k d post where
    r: "rollout_phase sys a rank s = Inr s1"
    and c: "compute_losses a (terminal_value sys s1) (vals s1) (rewards s1) (log_probs s1)
              (entropies s1) = Inr l"
    and t1: "trace s1 = trace s @ LoadStateDict # d" and p: "pass_calls rank k d"
    and t2: "trace s' = trace s1 @ [ZeroGrad,
                Backward (acc_policy_loss l + value_loss_coef a * acc_value_loss l),
                ClipGradNorm, EnsureSharedGrads, OptimizerStep] @ post"
    and q: "list_all quiet post"
    and w: "world s' = replay sys (world s1) (calls_since s1 s')"
    by blast
  let ?g = "[ZeroGrad, Backward (acc_policy_loss l + value_loss_coef a * acc_value_loss l),
             ClipGradNorm, EnsureSharedGrads, OptimizerStep]"
  from t1 t2 have "trace s' = trace s @ (LoadStateDict # d @ ?g @ post)" by simp
  then have "calls_since s s' = LoadStateDict # d @ ?g @ post" by (rule calls_since_append)
  moreover have "filter is_grad_call d = []" using p by (simp add: pass_calls_def)
  moreover have "filter is_grad_call post = []" using q by (rule quiet_filters)
  ultimately have f: "filter is_grad_call (calls_since s s') = ?g" by simp
  have e: "effect sys EnsureSharedGrads w
           = set_shared_grads sys
               (ensure_shared_grads (model_grads sys w) (shared_grads sys w)) w"
    by (simp add: effect_def)
  have first: "ensure_shared_grads ps (Some g # ss) = Some g # ss"
    by (cases ps) simp_all
  have all: "ensure_shared_grads ps ss = ps"
    if "length ps = length ss \<and> list_all (\<lambda>g. g = None) ss"
  proof -
    from that have tw: "takeWhile (\<lambda>g. g = None) ss = ss"
      by (simp add: list_all_iff)
    from that have len: "take (length ps) ss = ss" by simp
    have "ensure_shared_grads ps ss
          = take (length (takeWhile (\<lambda>g. g = None) ss)) ps
            @ drop (length (takeWhile (\<lambda>g. g = None) ss)) ss"
      using ensure_shared_grads_prefix [of ps ss] by (simp only: len)
    also have "\<dots> = take (length ss) ps @ drop (length ss) ss"
      by (simp only: tw)
    also have "\<dots> = ps" using that by simp
    finally show ?thesis .
  qed
  from r c f w e first all ensure_shared_grads_prefix [of ps ss] show ?thesis by blast
qed

theorem C3_shared_gradient_discipline_witness:
  "train_iter demo_sys demo_args 0 demo_start = Inr demo_trained
   \<and> filter is_grad_call (calls_since demo_start demo_trained)
       = [ZeroGrad, Backward (23 / 10), ClipGradNorm, EnsureSharedGrads, OptimizerStep]
   \<and> ensure_shared_grads [Some [1 :: real], Some [2], Some [3]] [None, Some [7], None]
       = [Some [1], Some [7], None]"
proof -
  note t = C3_shared_gradient_discipline [OF demo_train_iter,
      where ps = "[Some [1 :: real], Some [2], Some [3]]" and ss = "[None, Some [7], None]"]
  have "filter is_grad_call (calls_since demo_start demo_trained)
        = [ZeroGrad, Backward (23 / 10), ClipGradNorm, EnsureSharedGrads, OptimizerStep]"
    by (simp add: calls_since_def demo_start_def demo_trained_def init_worker_def
        case_prod_beta)
  moreover from t have "ensure_shared_grads [Some [1 :: real], Some [2], Some [3]]
                          [None, Some [7], None] = [Some [1], Some [7], None]"
    by simp
  ultimately show ?thesis using demo_train_iter by simp
qed



section \<open>Whole runs\<close>

lemma counted_from_skip:
  "\<not> is_env_step c \<Longrightarrow> \<not> is_lock_call c \<Longrightarrow> counted_from 0 (c # cs) = counted_from 0 cs"
  by simp

lemma train_iter_calls:
  assumes "train_iter sys a rank s = Inr s'"
  shows "\<exists>D. trace s' = trace s @ D \<and> counted_from 0 D
           \<and> length (filter is_env_step D) \<le> nat (num_steps a)
           \<and> counter s' = counter s + of_nat (length (filter is_env_step D))
           \<and> best_avg_episode_return s' = best_avg_episode_return s
           \<and> (rank = 0 \<or> filter is_save D = [])"
proof -
  from train_iter_summary [OF assms] obtain s1 l k d post where
    "rollout_phase sys a rank s = Inr s1"
    and "compute_losses a (terminal_value sys s1) (vals s1) (rewards s1) (log_probs s1)
           (entropies s1) = Inr l"
    and t1: "trace s1 = trace s @ LoadStateDict # d" and p: "pass_calls rank k d"
    and k: "k \<le> nat (num_steps a)"
    and t2: "trace s' = trace s1 @ [ZeroGrad,
                Backward (acc_policy_loss l + value_loss_coef a * acc_value_loss l),
                ClipGradNorm, EnsureSharedGrads, OptimizerStep] @ post"
    and q: "list_all quiet post"
    and f: "counter s' = counter s + of_nat k"
      "best_avg_episode_return s' = best_avg_episode_return s"
    by blast
  let ?g = "[ZeroGrad, Backward (acc_policy_loss l + value_loss_coef a * acc_value_loss l),
             ClipGradNorm, EnsureSharedGrads, OptimizerStep]"
  let ?D = "LoadStateDict # d @ ?g @ post"
  have t: "trace s' = trace s @ ?D" using t1 t2 by simp
  have "counted_from 0 (?g @ post)" using quiet_filters(4) [OF q] by simp
  with p have "counted_from 0 (d @ ?g @ post)"
    by (intro counted_from_append) (simp_all add: pass_calls_def)
  then have c: "counted_from 0 ?D" by simp
  have e: "length (filter is_env_step ?D) = k"
    using p quiet_filters(1) [OF q] by (simp add: pass_calls_def)
  have s: "rank = 0 \<or> filter is_save ?D = []"
    using p quiet_filters(3) [OF q] by (auto simp: pass_calls_def)
  from t c e k f s show ?thesis by (intro exI [of _ ?D]) simp
qed

lemma train_n_calls:
  "train_n sys a rank n s = Inr s' \<Longrightarrow>
     \<exists>D. trace s' = trace s @ D \<and> counted_from 0 D
       \<and> counter s' = counter s + of_nat (length (filter is_env_step D))
       \<and> best_avg_episode_return s' = best_avg_episode_return s
       \<and> (rank = 0 \<or> filter is_save D = [])"
proof (induction n arbitrary: s)
  case 0
  then have "s' = s" by simp
  then show ?case by (intro exI [of _ "[]"]) simp
next
  case (Suc n)
  from Suc.prems obtain s1 where i: "train_iter sys a rank s = Inr s1"
    and r: "train_n sys a rank n s1 = Inr s'"
    by (auto split: sum.splits)
  from train_iter_calls [OF i] obtain D1 where
    d1: "trace s1 = trace s @ D1" "counted_from 0 D1"
      "counter s1 = counter s + of_nat (length (filter is_env_step D1))"
      "best_avg_episode_return s1 = best_avg_episode_return s"
      "rank = 0 \<or> filter is_save D1 = []"
    by blast
  from Suc.IH [OF r] obtain D2 where
    d2: "trace s' = trace s1 @ D2" "counted_from 0 D2"
      "counter s' = counter s1 + of_nat (length (filter is_env_step D2))"
      "best_avg_episode_return s' = best_avg_episode_return s1"
      "rank = 0 \<or> filter is_save D2 = []"
    by blast
  have "counted_from 0 (D1 @ D2)" using d1(2) d2(2) by (rule counted_from_append)
  with d1 d2 show ?case by (intro exI [of _ "D1 @ D2"]) auto
qed

text \<open>The running best is never written after its initialisation at line 87.\<close>

lemma best_avg_never_updated:
  "train_n sys a rank n (init_worker sys a w c) = Inr s' \<Longrightarrow>
     best_avg_episode_return s' = MinusInf"
  by (drule train_n_calls) (auto simp: init_worker_def case_prod_beta)

section \<open>The shared counter\<close>









section \<open>The checkpoint cadence\<close>

lemma checkpoint_due_False:
  "checkpoint_due a rank n = Inr False \<longleftrightarrow>
     \<not> (rank = 0 \<and> 0 < n)
     \<or> (num_processes a \<noteq> 0 \<and> checkpoint_freq a div num_processes a \<noteq> 0
        \<and> n mod (checkpoint_freq a div num_processes a) \<noteq> 0)"
  by (auto simp: checkpoint_due_def Let_def)

lemma rollout_step_saves:
  assumes "rollout_step sys a rank s = Inr s'"
  shows "filter is_save (calls_since s s')
         = (if rank = 0 \<and> 0 < total_length s
               \<and> total_length s mod (checkpoint_freq a div num_processes a) = 0
            then [TorchSave \<lparr>ck_total_length = total_length s,
                             ck_episode_number = episode_number s,
                             ck_counter = sint (counter s),
                             ck_state_dict = state_dict sys (world s),
                             ck_optimizer = optimizer_state_dict sys (world s)\<rparr>
                    (total_length s)]
            else [])"
proof -
  from assms obtain s1 where c: "checkpoint_phase sys a rank s = Inr s1"
    and s': "s' = pass_body sys a rank s1"
    by (auto simp: rollout_step_Inr)
  from pass_body_trace [of sys a rank s1] obtain ep where
    e: "trace s' = trace s1 @ [EnvStep (fst (sample_action sys s1)), LockAcquire, LockRelease] @ ep"
    and q: "list_all quiet ep"
    using s' by blast
  have fq: "filter is_save ep = []" using q by (rule quiet_filters)
  from c show ?thesis
  proof (cases rule: checkpoint_phase_cases)
    case skip
    from e skip have "calls_since s s'
        = [EnvStep (fst (sample_action sys s1)), LockAcquire, LockRelease] @ ep"
      by (intro calls_since_append) simp
    with fq skip show ?thesis by (auto simp: checkpoint_due_False)
  next
    case save
    let ?ck = "TorchSave \<lparr>ck_total_length = total_length s,
                   ck_episode_number = episode_number s,
                   ck_counter = sint (counter s),
                   ck_state_dict = state_dict sys (world s),
                   ck_optimizer = optimizer_state_dict sys (world s)\<rparr> (total_length s)
               # Print # (if ext_gt (avg_episode_return s) (best_avg_episode_return s)
                          then [CopyBest (total_length s)] else [])"
    have "trace s1 = trace s @ ?ck" using save by simp
    with e have "calls_since s s'
        = ?ck @ [EnvStep (fst (sample_action sys s1)), LockAcquire, LockRelease] @ ep"
      by (intro calls_since_append) simp
    with fq save show ?thesis by (simp add: checkpoint_due_True)
  qed
qed

lemma rollout_step_total:
  assumes "rank \<noteq> 0 \<or> total_length s \<le> 0
           \<or> (num_processes a \<noteq> 0 \<and> checkpoint_freq a div num_processes a \<noteq> 0)"
  shows "\<exists>s'. rollout_step sys a rank s = Inr s'"
proof -
  from assms have "\<exists>b. checkpoint_due a rank (total_length s) = Inr b"
    by (auto simp: checkpoint_due_def Let_def)
  then obtain b where "checkpoint_due a rank (total_length s) = Inr b" by blast
  then show ?thesis
    by (cases b) (simp_all add: rollout_step_def checkpoint_phase_def Let_def)
qed

lemma update_phase_saves:
  assumes "update_phase sys a rank s = Inr u"
  shows "filter is_save (calls_since s u) = []"
proof -
  from assms obtain l where
    u: "u = apply_update sys a rank l
              ((if \<not> is_done s then s\<lparr>cur_value := terminal_value sys s\<rparr> else s)
                 \<lparr>vals := vals s @ [terminal_value sys s]\<rparr>)"
    by (rule update_phase_Inr)
  let ?s1 = "(if \<not> is_done s then s\<lparr>cur_value := terminal_value sys s\<rparr> else s)
               \<lparr>vals := vals s @ [terminal_value sys s]\<rparr>"
  let ?g = "[ZeroGrad, Backward (acc_policy_loss l + value_loss_coef a * acc_value_loss l),
             ClipGradNorm, EnsureSharedGrads, OptimizerStep]"
  from apply_update_trace [of sys a rank l ?s1] obtain post where
    t: "trace (apply_update sys a rank l ?s1) = trace ?s1 @ ?g @ post"
    and q: "list_all quiet post"
    by blast
  have "trace ?s1 = trace s" by simp
  with t u have "calls_since s u = ?g @ post"
    by (intro calls_since_append) simp
  with quiet_filters(3) [OF q] show ?thesis by simp
qed

text \<open>
  Claim C5. A pass writes a checkpoint exactly when the worker has rank 0, the total
  length is positive and it is divisible by \<open>checkpoint_freq // num_processes\<close>; the
  object written then holds the total length, the episode number, the counter, the
  model's state and the optimizer's state, as they are at that moment, and nothing
  else. The update after the rollout writes none, and no worker of another rank ever
  writes one. (A pass completes unless that division is by zero.)
\<close>

theorem C5_checkpoint_cadence_and_record:
  "(rollout_step sys a rank s = Inr s' \<longrightarrow>
      filter is_save (calls_since s s')
      = (if rank = 0 \<and> 0 < total_length s
            \<and> total_length s mod (checkpoint_freq a div num_processes a) = 0
         then [TorchSave \<lparr>ck_total_length = total_length s,
                          ck_episode_number = episode_number s,
                          ck_counter = sint (counter s),
                          ck_state_dict = state_dict sys (world s),
                          ck_optimizer = optimizer_state_dict sys (world s)\<rparr>
                 (total_length s)]
         else []))
   \<and> (update_phase sys a rank s = Inr u \<longrightarrow> filter is_save (calls_since s u) = [])
   \<and> (train_n sys a rank n s = Inr s'' \<longrightarrow> rank \<noteq> 0 \<longrightarrow>
        filter is_save (calls_since s s'') = [])
   \<and> (rank \<noteq> 0 \<or> total_length s \<le> 0
        \<or> (num_processes a \<noteq> 0 \<and> checkpoint_freq a div num_processes a \<noteq> 0)
       \<longrightarrow> (\<exists>s'. rollout_step sys a rank s = Inr s'))"
proof -
  have "filter is_save (calls_since s s'') = []"
    if "train_n sys a rank n s = Inr s''" and "rank \<noteq> 0"
  proof -
    from train_n_calls [OF that(1)] obtain D where
      "trace s'' = trace s @ D" and "rank = 0 \<or> filter is_save D = []"
      by blast
    with that(2) show ?thesis by (simp add: calls_since_append)
  qed
  moreover have "filter is_save (calls_since s u) = []"
    if "update_phase sys a rank s = Inr u"
    using that by (rule update_phase_saves)
  ultimately show ?thesis
    using rollout_step_saves [of sys a rank s s'] rollout_step_total [of rank s a sys]
    by blast
qed

lemma demo_rollout_rank1: "rollout_phase demo_sys demo_args 1 demo_start = Inr demo_rolled"
  by (simp add: eval_defs demo_rolled_def numeral_2_eq_2)

lemma demo_update_rank1: "update_phase demo_sys demo_args 1 demo_rolled = Inr demo_trained"
  by (simp add: eval_defs update_defs demo_rolled_def demo_trained_def numeral_2_eq_2)

lemma demo_train_rank1: "train_n demo_sys demo_args 1 1 demo_start = Inr demo_trained"
  by (simp add: train_iter_def demo_rollout_rank1 demo_update_rank1)

lemma demo_step_exists: "\<exists>s'. rollout_step demo_sys demo_args 0 demo_trained = Inr s'"
  by (rule rollout_step_total) (simp add: demo_args_def)

theorem C5_checkpoint_cadence_and_record_witness:
  "map_sum id (\<lambda>s'. filter is_save (calls_since demo_trained s'))
     (rollout_step demo_sys demo_args 0 demo_trained)
   = Inr [TorchSave \<lparr>ck_total_length = 2, ck_episode_number = 0, ck_counter = 2,
                     ck_state_dict = [], ck_optimizer = []\<rparr> 2]
   \<and> train_n demo_sys demo_args 1 1 demo_start = Inr demo_trained
   \<and> filter is_save (calls_since demo_start demo_trained) = []"
proof -
  from demo_step_exists obtain s' where
    st: "rollout_step demo_sys demo_args 0 demo_trained = Inr s'" by blast
  have one: "(1::int) \<noteq> 0" by simp
  note t = C5_checkpoint_cadence_and_record
    [where sys = demo_sys and a = demo_args and rank = 0 and s = demo_trained and s' = s']
  note t1 = C5_checkpoint_cadence_and_record
    [where sys = demo_sys and a = demo_args and rank = 1 and s = demo_start and n = 1
       and s'' = demo_trained]
  from t st have "filter is_save (calls_since demo_trained s')
      = (if (0::int) = 0 \<and> 0 < total_length demo_trained
            \<and> total_length demo_trained
                mod (checkpoint_freq demo_args div num_processes demo_args) = 0
         then [TorchSave \<lparr>ck_total_length = total_length demo_trained,
                          ck_episode_number = episode_number demo_trained,
                          ck_counter = sint (counter demo_trained),
                          ck_state_dict = state_dict demo_sys (world demo_trained),
                          ck_optimizer = optimizer_state_dict demo_sys (world demo_trained)\<rparr>
                 (total_length demo_trained)]
         else [])"
    by blast
  then have a: "filter is_save (calls_since demo_trained s')
      = [TorchSave \<lparr>ck_total_length = 2, ck_episode_number = 0, ck_counter = 2,
                     ck_state_dict = [], ck_optimizer = []\<rparr> 2]"
    by (simp add: demo_trained_def demo_args_def demo_sys_def scripted_def)
  from t1 demo_train_rank1 one have "filter is_save (calls_since demo_start demo_trained) = []"
    by blast
  with a st demo_train_rank1 show ?thesis by simp
qed

text \<open>
  Claim C9, as amended. With \<open>0 \<le> checkpoint_freq < num_processes\<close> the divisor
  \<open>checkpoint_freq // num_processes\<close> is 0, and the first pass of the rank-0 worker with
  a positive total length raises ZeroDivisionError, which ends the pass through the
  outer loop as well; so for a non-negative \<open>checkpoint_freq\<close>,
  \<open>checkpoint_freq \<ge> num_processes\<close> is needed for the training loop not to fail.
  (A negative \<open>checkpoint_freq\<close> gives a non-zero divisor: see the counterexample.)
\<close>

theorem C9_zero_divisor:
  assumes "0 \<le> checkpoint_freq a" and "checkpoint_freq a < num_processes a"
    and "0 < total_length s"
  shows "checkpoint_freq a div num_processes a = 0
       \<and> checkpoint_due a 0 (total_length s) = Inl ZeroDivisionError
       \<and> rollout_step sys a 0 s = Inl ZeroDivisionError
       \<and> (0 < num_steps a \<longrightarrow> train_iter sys a 0 s = Inl ZeroDivisionError)"
proof -
  from assms have d: "checkpoint_freq a div num_processes a = 0"
    by (simp add: div_pos_pos_trivial)
  have step: "rollout_step sys a 0 t = Inl ZeroDivisionError" if "0 < total_length t" for t
    using d that
    by (simp add: rollout_step_def checkpoint_phase_def checkpoint_due_def Let_def)
  have "train_iter sys a 0 s = Inl ZeroDivisionError" if "0 < num_steps a"
  proof -
    from that obtain m where m: "nat (num_steps a) = Suc m"
      by (cases "nat (num_steps a)") auto
    let ?s1 = "(emit sys LoadStateDict s)
                 \<lparr>hid := (if is_done (emit sys LoadStateDict s) then zeros_hidden sys
                          else hid (emit sys LoadStateDict s)),
                  vals := [], log_probs := [], rewards := [], entropies := []\<rparr>"
    have "0 < total_length ?s1" using assms(3) by simp
    then have "rollout_step sys a 0 ?s1 = Inl ZeroDivisionError" by (rule step)
    then have "rollout_phase sys a 0 s = Inl ZeroDivisionError"
      by (simp add: rollout_phase_def Let_def m)
    then show ?thesis by (simp add: train_iter_def)
  qed
  with d step [OF assms(3)] assms(3) show ?thesis
    by (simp add: checkpoint_due_def)
qed

theorem C9_zero_divisor_witness:
  "0 \<le> checkpoint_freq many_procs_args
   \<and> checkpoint_freq many_procs_args < num_processes many_procs_args
   \<and> 0 < total_length demo_rolled
   \<and> rollout_step demo_sys many_procs_args 0 demo_rolled = Inl ZeroDivisionError
   \<and> train_iter demo_sys many_procs_args 0 demo_rolled = Inl ZeroDivisionError"
proof -
  have a: "0 \<le> checkpoint_freq many_procs_args"
    "checkpoint_freq many_procs_args < num_processes many_procs_args"
    "0 < num_steps many_procs_args"
    by (simp_all add: many_procs_args_def demo_args_def)
  have b: "0 < total_length demo_rolled" by (simp add: demo_rolled_def)
  from C9_zero_divisor [OF a(1) a(2) b, of demo_sys] a b show ?thesis by simp
qed

text \<open>
  With \<open>checkpoint_freq = -1\<close> and one process the frequency is below the number of
  processes, the divisor is \<open>-1\<close>, the checkpoint is due, and the pass completes.
\<close>

theorem C9_negative_frequency:
  "checkpoint_freq negative_freq_args < num_processes negative_freq_args
   \<and> checkpoint_freq negative_freq_args div num_processes negative_freq_args = - 1
   \<and> total_length demo_rolled = 2
   \<and> checkpoint_due negative_freq_args 0 (total_length demo_rolled) = Inr True
   \<and> map_sum id total_length (rollout_step demo_sys negative_freq_args 0 demo_rolled) = Inr 3"
  by (simp add: negative_freq_args_def demo_args_def demo_rolled_def checkpoint_due_def
      rollout_step_def checkpoint_phase_def Let_def)



section \<open>The logged total of an episode\<close>

lemma episode_over_total_log:
  "filter is_total_log (calls_since s (episode_over sys rank s))
   = (if rank = 0
      then [AddScalar ''episode_total_rewards'' (sum_list (all_rewards_in_episode s))
              (episode_number s)]
      else [])"
  by (simp add: episode_over_def calls_since_def Let_def case_prod_beta)

lemma pass_body_episode:
  shows "cur_reward (pass_body sys a rank p) = fst (snd (env_response sys p))"
    and "rewards (pass_body sys a rank p) = rewards p @ [cur_reward (pass_body sys a rank p)]"
    and "episode_total_rewards_list (pass_body sys a rank p)
         = (if is_done (pass_body sys a rank p)
            then episode_total_rewards_list p @ [sum_list (all_rewards_in_episode p)]
            else episode_total_rewards_list p)"
    and "all_rewards_in_episode (pass_body sys a rank p)
         = (if is_done (pass_body sys a rank p) then [] else all_rewards_in_episode p)
           @ [cur_reward (pass_body sys a rank p)]"
    and "episode_number (pass_body sys a rank p)
         = (if is_done (pass_body sys a rank p) then episode_number p + 1 else episode_number p)"
  by (simp_all add: pass_body_def Let_def)

lemma pass_body_total_log:
  "filter is_total_log (calls_since p (pass_body sys a rank p))
   = (if rank = 0 \<and> is_done (pass_body sys a rank p)
      then [AddScalar ''episode_total_rewards'' (sum_list (all_rewards_in_episode p))
              (episode_number p)]
      else [])"
proof -
  let ?s2 = "count_step sys (interact sys a p)"
  have t2: "trace ?s2 = trace p @ [EnvStep (fst (sample_action sys p)), LockAcquire, LockRelease]"
    by simp
  show ?thesis
  proof (cases "is_done ?s2")
    case False
    then have "trace (pass_body sys a rank p) = trace ?s2"
      and "\<not> is_done (pass_body sys a rank p)"
      by (simp_all add: pass_body_def Let_def)
    with t2 show ?thesis by (simp add: calls_since_def)
  next
    case True
    from episode_over_trace [of sys rank ?s2] obtain ep where
      ep: "trace (episode_over sys rank ?s2) = trace ?s2 @ ep" by blast
    then have c: "calls_since ?s2 (episode_over sys rank ?s2) = ep"
      by (rule calls_since_append)
    from True have "trace (pass_body sys a rank p) = trace (episode_over sys rank ?s2)"
      and d: "is_done (pass_body sys a rank p)"
      by (simp_all add: pass_body_def Let_def)
    with ep t2 have "calls_since p (pass_body sys a rank p)
        = [EnvStep (fst (sample_action sys p)), LockAcquire, LockRelease] @ ep"
      by (intro calls_since_append) simp
    moreover have "filter is_total_log ep
        = (if rank = 0
           then [AddScalar ''episode_total_rewards'' (sum_list (all_rewards_in_episode p))
                   (episode_number p)]
           else [])"
      using episode_over_total_log [of ?s2 sys rank] c by simp
    ultimately show ?thesis using d by simp
  qed
qed

lemma checkpoint_phase_total_log:
  assumes "checkpoint_phase sys a rank s = Inr p"
  shows "\<exists>ck. trace p = trace s @ ck \<and> filter is_total_log ck = []"
  using assms
  by (cases rule: checkpoint_phase_cases) auto

text \<open>One pass: what it logs and what it leaves in the accumulator.\<close>

lemma rollout_step_episode:
  assumes "rollout_step sys a rank s = Inr s'"
  shows "\<exists>p. checkpoint_phase sys a rank s = Inr p \<and> s' = pass_body sys a rank p
           \<and> cur_reward s' = fst (snd (env_response sys p))"
    and "rewards s' = rewards s @ [cur_reward s']"
    and "episode_total_rewards_list s'
         = (if is_done s'
            then episode_total_rewards_list s @ [sum_list (all_rewards_in_episode s)]
            else episode_total_rewards_list s)"
    and "all_rewards_in_episode s'
         = (if is_done s' then [] else all_rewards_in_episode s) @ [cur_reward s']"
    and "filter is_total_log (calls_since s s')
         = (if rank = 0 \<and> is_done s'
            then [AddScalar ''episode_total_rewards'' (sum_list (all_rewards_in_episode s))
                    (episode_number s)]
            else [])"
proof -
  from assms obtain p where c: "checkpoint_phase sys a rank s = Inr p"
    and s': "s' = pass_body sys a rank p"
    by (auto simp: rollout_step_Inr)
  note k = checkpoint_phase_keeps [OF c]
  from c s' show "\<exists>p. checkpoint_phase sys a rank s = Inr p \<and> s' = pass_body sys a rank p
           \<and> cur_reward s' = fst (snd (env_response sys p))"
    by (auto simp: pass_body_episode(1))
  show "rewards s' = rewards s @ [cur_reward s']"
    unfolding s' by (simp add: pass_body_episode(1) k)
  show "episode_total_rewards_list s'
         = (if is_done s'
            then episode_total_rewards_list s @ [sum_list (all_rewards_in_episode s)]
            else episode_total_rewards_list s)"
    unfolding s' by (simp only: pass_body_episode(3) k)
  show "all_rewards_in_episode s'
         = (if is_done s' then [] else all_rewards_in_episode s) @ [cur_reward s']"
    unfolding s' by (subst pass_body_episode(4)) (simp only: k)
  from checkpoint_phase_total_log [OF c] obtain ck where
    ck: "trace p = trace s @ ck" "filter is_total_log ck = []" by blast
  from pass_body_trace [of sys a rank p] obtain ep where
    "trace s' = trace p @ [EnvStep (fst (sample_action sys p)), LockAcquire, LockRelease] @ ep"
    using s' by blast
  then have e: "calls_since p s'
      = [EnvStep (fst (sample_action sys p)), LockAcquire, LockRelease] @ ep"
    and "trace s' = trace s @ ck @ [EnvStep (fst (sample_action sys p)), LockAcquire, LockRelease] @ ep"
    using ck(1) by (simp_all add: calls_since_append)
  then have "calls_since s s' = ck @ calls_since p s'"
    by (simp add: calls_since_append)
  then have "filter is_total_log (calls_since s s') = filter is_total_log (calls_since p s')"
    using ck(2) by simp
  then show "filter is_total_log (calls_since s s')
         = (if rank = 0 \<and> is_done s'
            then [AddScalar ''episode_total_rewards'' (sum_list (all_rewards_in_episode s))
                    (episode_number s)]
            else [])"
    unfolding s' by (simp only: pass_body_total_log k)
qed

text \<open>
  A rollout ends with the pass that ends an episode, so it logs at most one total: the
  rewards carried in the accumulator plus those of the rollout without the last one.
\<close>

lemma rollout_loop_episode:
  "rollout_loop sys a rank n s = Inr s' \<Longrightarrow>
     \<exists>rs. rewards s' = rewards s @ rs \<and> (rs = [] \<longrightarrow> s' = s)
       \<and> (rs \<noteq> [] \<longrightarrow>
            episode_total_rewards_list s'
            = (if is_done s'
               then episode_total_rewards_list s
                      @ [sum_list (all_rewards_in_episode s) + sum_list (butlast rs)]
               else episode_total_rewards_list s)
            \<and> all_rewards_in_episode s'
              = (if is_done s' then [last rs] else all_rewards_in_episode s @ rs))"
proof (induction n arbitrary: s)
  case 0
  then have "s' = s" by simp
  then show ?case by (intro exI [of _ "[]"]) simp
next
  case (Suc n)
  from Suc.prems obtain s1 where st: "rollout_step sys a rank s = Inr s1"
    and rest: "(if is_done s1 then Inr s1 else rollout_loop sys a rank n s1) = Inr s'"
    by (auto split: sum.splits)
  note e = rollout_step_episode(2-4) [OF st]
  show ?case
  proof (cases "is_done s1")
    case True
    with rest have "s' = s1" by simp
    with e True show ?thesis by (intro exI [of _ "[cur_reward s1]"]) simp
  next
    case False
    with rest have "rollout_loop sys a rank n s1 = Inr s'" by simp
    from Suc.IH [OF this] obtain rs where
      rs: "rewards s' = rewards s1 @ rs" "rs = [] \<longrightarrow> s' = s1"
        "rs \<noteq> [] \<longrightarrow>
            episode_total_rewards_list s'
            = (if is_done s'
               then episode_total_rewards_list s1
                      @ [sum_list (all_rewards_in_episode s1) + sum_list (butlast rs)]
               else episode_total_rewards_list s1)
            \<and> all_rewards_in_episode s'
              = (if is_done s' then [last rs] else all_rewards_in_episode s1 @ rs)"
      by blast
    show ?thesis
    proof (cases "rs = []")
      case True
      with rs have "s' = s1" by simp
      with e False show ?thesis by (intro exI [of _ "[cur_reward s1]"]) simp
    next
      case nonempty: False
      with rs e False show ?thesis
        by (intro exI [of _ "cur_reward s1 # rs"]) (simp add: algebra_simps)
    qed
  qed
qed

lemma train_iter_episode:
  assumes "train_iter sys a rank s = Inr u"
  shows "rewards u \<noteq> []"
    and "episode_total_rewards_list u
         = (if is_done u
            then episode_total_rewards_list s
                   @ [sum_list (all_rewards_in_episode s) + sum_list (butlast (rewards u))]
            else episode_total_rewards_list s)"
    and "all_rewards_in_episode u
         = (if is_done u then [last (rewards u)] else all_rewards_in_episode s @ rewards u)"
proof -
  from assms obtain s1 where r: "rollout_phase sys a rank s = Inr s1"
    and up: "update_phase sys a rank s1 = Inr u"
    by (auto simp: train_iter_def split: sum.splits)
  from up obtain l where ne: "rewards s1 \<noteq> []"
    and u: "u = apply_update sys a rank l
                  ((if \<not> is_done s1 then s1\<lparr>cur_value := terminal_value sys s1\<rparr> else s1)
                     \<lparr>vals := vals s1 @ [terminal_value sys s1]\<rparr>)"
    by (rule update_phase_Inr)
  have k: "rewards u = rewards s1" "is_done u = is_done s1"
    "episode_total_rewards_list u = episode_total_rewards_list s1"
    "all_rewards_in_episode u = all_rewards_in_episode s1"
    unfolding u by simp_all
  let ?s0 = "(emit sys LoadStateDict s)
               \<lparr>hid := (if is_done (emit sys LoadStateDict s) then zeros_hidden sys
                        else hid (emit sys LoadStateDict s)),
                vals := [], log_probs := [], rewards := [], entropies := []\<rparr>"
  from r have "rollout_loop sys a rank (nat (num_steps a)) ?s0 = Inr s1"
    by (simp add: rollout_phase_def Let_def)
  from rollout_loop_episode [OF this] obtain rs where
    rs: "rewards s1 = rewards ?s0 @ rs"
      "rs \<noteq> [] \<longrightarrow>
            episode_total_rewards_list s1
            = (if is_done s1
               then episode_total_rewards_list ?s0
                      @ [sum_list (all_rewards_in_episode ?s0) + sum_list (butlast rs)]
               else episode_total_rewards_list ?s0)
            \<and> all_rewards_in_episode s1
              = (if is_done s1 then [last rs] else all_rewards_in_episode ?s0 @ rs)"
    by blast
  from rs(1) have eq: "rs = rewards s1" by simp
  with ne rs(2) have
    "episode_total_rewards_list s1
       = (if is_done s1
          then episode_total_rewards_list s
                 @ [sum_list (all_rewards_in_episode s) + sum_list (butlast (rewards s1))]
          else episode_total_rewards_list s)"
    "all_rewards_in_episode s1
       = (if is_done s1 then [last (rewards s1)] else all_rewards_in_episode s @ rewards s1)"
    by simp_all
  with k ne show "rewards u \<noteq> []"
    and "episode_total_rewards_list u
         = (if is_done u
            then episode_total_rewards_list s
                   @ [sum_list (all_rewards_in_episode s) + sum_list (butlast (rewards u))]
            else episode_total_rewards_list s)"
    and "all_rewards_in_episode u
         = (if is_done u then [last (rewards u)] else all_rewards_in_episode s @ rewards u)"
    by simp_all
qed

text \<open>
  Claim C10. In a pass that ends an episode, the total that is recorded and logged is
  the sum of \<open>all_rewards_in_episode\<close> as it was before the pass, so without the
  reward of this pass; the accumulator is emptied and then receives that reward, so it
  is \<open>[reward]\<close> afterwards and the reward counts toward the next episode. In a pass
  that does not end an episode nothing is logged and the reward joins the accumulator.
  Over one pass of the outer loop: when the rollout ends an episode, the total recorded
  is what the accumulator carried plus the rewards of the rollout except the last, and
  the accumulator is left holding that last reward. (A pass completes unless the
  checkpoint test divides by zero.)
\<close>

theorem C10_logged_total_excludes_last_reward:
  "(rollout_step sys a rank s = Inr s' \<longrightarrow>
      (\<exists>p. checkpoint_phase sys a rank s = Inr p \<and> s' = pass_body sys a rank p
          \<and> cur_reward s' = fst (snd (env_response sys p)))
      \<and> rewards s' = rewards s @ [cur_reward s']
      \<and> episode_total_rewards_list s'
        = (if is_done s'
           then episode_total_rewards_list s @ [sum_list (all_rewards_in_episode s)]
           else episode_total_rewards_list s)
      \<and> all_rewards_in_episode s'
        = (if is_done s' then [] else all_rewards_in_episode s) @ [cur_reward s']
      \<and> filter is_total_log (calls_since s s')
        = (if rank = 0 \<and> is_done s'
           then [AddScalar ''episode_total_rewards'' (sum_list (all_rewards_in_episode s))
                   (episode_number s)]
           else []))
   \<and> (train_iter sys a rank s = Inr u \<longrightarrow>
        rewards u \<noteq> []
        \<and> episode_total_rewards_list u
          = (if is_done u
             then episode_total_rewards_list s
                    @ [sum_list (all_rewards_in_episode s) + sum_list (butlast (rewards u))]
             else episode_total_rewards_list s)
        \<and> all_rewards_in_episode u
          = (if is_done u then [last (rewards u)] else all_rewards_in_episode s @ rewards u))
   \<and> (rank \<noteq> 0 \<or> total_length s \<le> 0
        \<or> (num_processes a \<noteq> 0 \<and> checkpoint_freq a div num_processes a \<noteq> 0)
       \<longrightarrow> (\<exists>s'. rollout_step sys a rank s = Inr s'))"
  using rollout_step_episode [of sys a rank s s'] train_iter_episode [of sys a rank s u]
    rollout_step_total [of rank s a sys]
  by blast

text \<open>
  The run in which step \<open>k\<close> pays \<open>k\<close> and every third step ends an episode: the
  episodes pay \<open>0 + 1 + 2\<close> and \<open>3 + 4 + 5\<close>, and what is recorded is \<open>0 + 1\<close> and
  \<open>2 + 3 + 4\<close>, with \<open>5\<close> left in the accumulator.
\<close>

lemma demo_two_episodes:
  "map_sum id (\<lambda>s. (episode_total_rewards_list s, all_rewards_in_episode s,
                     filter is_total_log (trace s)))
     (train_n demo_sys demo_args 0 4 demo_start)
   = Inr ([1, 9], [5], [AddScalar ''episode_total_rewards'' 1 0,
                        AddScalar ''episode_total_rewards'' 9 1])"
  by code_simp

lemma demo_train_again:
  "\<exists>u. train_iter demo_sys demo_args 0 demo_trained = Inr u \<and> is_done u \<and> rewards u = [2]"
  by (simp add: train_iter_def demo_rollout_again update_phase_def terminal_value_def
      compute_losses_def gae_body_def nth_py_def demo_rolled_again_def Let_def)

lemma demo_step_again:
  "\<exists>s'. rollout_step demo_sys demo_args 0 demo_trained = Inr s' \<and> is_done s'
        \<and> cur_reward s' = 2"
  by (simp add: eval_defs demo_trained_def avg_over_num_episodes_def)

theorem C10_logged_total_excludes_last_reward_witness:
  "map_sum id (\<lambda>s'. (episode_total_rewards_list s', all_rewards_in_episode s',
                      filter is_total_log (calls_since demo_trained s')))
     (rollout_step demo_sys demo_args 0 demo_trained)
   = Inr ([1], [2], [AddScalar ''episode_total_rewards'' 1 0])
   \<and> map_sum id (\<lambda>u. (episode_total_rewards_list u, all_rewards_in_episode u))
       (train_iter demo_sys demo_args 0 demo_trained)
     = Inr ([1], [2])
   \<and> all_rewards_in_episode demo_trained = [0, 1]
   \<and> map_sum id (\<lambda>s. (episode_total_rewards_list s, all_rewards_in_episode s,
                       filter is_total_log (trace s)))
       (train_n demo_sys demo_args 0 4 demo_start)
     = Inr ([1, 9], [5], [AddScalar ''episode_total_rewards'' 1 0,
                          AddScalar ''episode_total_rewards'' 9 1])"
proof -
  from demo_step_again obtain s' where
    st: "rollout_step demo_sys demo_args 0 demo_trained = Inr s'"
    and d: "is_done s'" and r: "cur_reward s' = 2"
    by blast
  from demo_train_again obtain u where
    tr: "train_iter demo_sys demo_args 0 demo_trained = Inr u"
    and du: "is_done u" and ru: "rewards u = [2]"
    by blast
  note t = C10_logged_total_excludes_last_reward
    [where sys = demo_sys and a = demo_args and rank = 0 and s = demo_trained and s' = s'
       and u = u]
  have acc: "all_rewards_in_episode demo_trained = [0, 1]"
    and tot: "episode_total_rewards_list demo_trained = []"
    and num: "episode_number demo_trained = 0"
    by (simp_all add: demo_trained_def)
  from t st have
    "episode_total_rewards_list s'
     = (if is_done s'
        then episode_total_rewards_list demo_trained
               @ [sum_list (all_rewards_in_episode demo_trained)]
        else episode_total_rewards_list demo_trained)"
    "all_rewards_in_episode s'
     = (if is_done s' then [] else all_rewards_in_episode demo_trained) @ [cur_reward s']"
    "filter is_total_log (calls_since demo_trained s')
     = (if (0::int) = 0 \<and> is_done s'
        then [AddScalar ''episode_total_rewards''
                (sum_list (all_rewards_in_episode demo_trained))
                (episode_number demo_trained)]
        else [])"
    by blast+
  with d r acc tot num have a:
    "episode_total_rewards_list s' = [1]" "all_rewards_in_episode s' = [2]"
    "filter is_total_log (calls_since demo_trained s')
     = [AddScalar ''episode_total_rewards'' 1 0]"
    by simp_all
  from t tr have
    "episode_total_rewards_list u
     = (if is_done u
        then episode_total_rewards_list demo_trained
               @ [sum_list (all_rewards_in_episode demo_trained)
                  + sum_list (butlast (rewards u))]
        else episode_total_rewards_list demo_trained)"
    "all_rewards_in_episode u
     = (if is_done u then [last (rewards u)]
        else all_rewards_in_episode demo_trained @ rewards u)"
    by blast+
  with du ru acc tot have b:
    "episode_total_rewards_list u = [1]" "all_rewards_in_episode u = [2]"
    by simp_all
  from a b st tr acc demo_two_episodes show ?thesis by simp
qed

section \<open>The copy of the best checkpoint\<close>

text \<open>
  When a checkpoint is written it is copied as the best one exactly if the rolling
  average is above \<open>best_avg_episode_return\<close>; nothing else copies.
\<close>

lemma checkpoint_phase_copies:
  assumes "checkpoint_phase sys a rank s = Inr p"
  shows "filter is_copy (calls_since s p)
         = (if checkpoint_due a rank (total_length s) = Inr True
               \<and> ext_gt (avg_episode_return s) (best_avg_episode_return s)
            then [CopyBest (total_length s)] else [])"
  using assms
  by (cases rule: checkpoint_phase_cases) (simp_all add: calls_since_def)

text \<open>
  Since \<open>best_avg_episode_return\<close> stays at \<open>-inf\<close> (lemma \<open>best_avg_never_updated\<close>),
  every checkpoint written once a rolling average exists is copied as the best.
\<close>

lemma copies_whenever_average_exists:
  assumes "train_n sys a rank n (init_worker sys a w c) = Inr s"
    and "checkpoint_phase sys a rank s = Inr p"
    and "checkpoint_due a rank (total_length s) = Inr True"
  shows "filter is_copy (calls_since s p)
         = (if avg_episode_return s = MinusInf then [] else [CopyBest (total_length s)])"
proof -
  from assms(1) have "best_avg_episode_return s = MinusInf"
    by (rule best_avg_never_updated)
  with checkpoint_phase_copies [OF assms(2)] assms(3) show ?thesis
    by (cases "avg_episode_return s") simp_all
qed

text \<open>
  Claim C6 does not hold of this code. In the run of \<open>one_reward_sys\<close> every step ends
  an episode and a checkpoint is written at every total length from 1 on. After 11
  passes of the outer loop the rolling average is 1 and nothing has been copied; the
  checkpoint at total length 11 is written with that average and copied as the best.
  After 12 passes the rolling average is 0, below the best average seen so far, and
  \<open>best_avg_episode_return\<close> is still \<open>-inf\<close>; the checkpoint at total length 12 is
  copied as the best all the same.
\<close>

theorem C6_best_copy_ignores_best_seen:
  "map_sum id (\<lambda>s. (total_length s, avg_episode_returns s, avg_episode_return s,
                     best_avg_episode_return s, filter is_copy (trace s)))
     (train_n one_reward_sys every_step_args 0 11
        (init_worker one_reward_sys every_step_args 0 0))
   = Inr (11, [1], Finite 1, MinusInf, [])
   \<and> map_sum id (\<lambda>s. (total_length s, avg_episode_returns s, avg_episode_return s,
                       best_avg_episode_return s, filter is_copy (trace s)))
       (train_n one_reward_sys every_step_args 0 12
          (init_worker one_reward_sys every_step_args 0 0))
     = Inr (12, [1, 0], Finite 0, MinusInf, [CopyBest 11])
   \<and> map_sum id (\<lambda>s. (total_length s, avg_episode_returns s, avg_episode_return s,
                       best_avg_episode_return s, filter is_copy (trace s)))
       (train_n one_reward_sys every_step_args 0 13
          (init_worker one_reward_sys every_step_args 0 0))
     = Inr (13, [1, 0, 0], Finite 0, MinusInf, [CopyBest 11, CopyBest 12])"
  by code_simp


end
